theory Spec2Isabelle
  imports Complex_Main "HOL-Library.Sublist"
begin

section \<open>UltraForward: the session cache, the spam detector, the repository and the bot\<close>

text \<open>
  A shallow embedding of the parts of UltraForward that carry its invariants:
  \<^verbatim>\<open>uf/src/cache.py\<close> (class DataCache), \<^verbatim>\<open>uf/src/spam_detect.py\<close> (class SpamDetector),
  \<^verbatim>\<open>uf/src/verify.py\<close> (the captcha text), \<^verbatim>\<open>uf/src/sql/repository.py\<close> (class UFRepository)
  and the handlers of \<^verbatim>\<open>uf/src/bot.py\<close> (class MyBot).

  Conventions of the embedding:
  \<^item> Python's unbounded \<open>int\<close> is \<open>int\<close>; a user id, a message id and a topic id are ints.
  \<^item> A reading of \<open>time.monotonic()\<close> is a \<open>real\<close>: the arithmetic on timestamps is exact,
    the rounding of Python's floats is not modelled. The reading is an argument of the function
    that takes it.
  \<^item> A dict is a map; the per-user flag dict holds values of type \<open>pyval\<close>.
  \<^item> An \<open>asyncio.Lock\<close> object is known by its identity, a natural number; the cache record
    carries the counter \<open>lock_counter\<close> from which the next object identity is taken.
  \<^item> An exception is a value of type \<open>exc\<close>; a function that can raise returns \<open>exc + 'a\<close>.
  \<^item> Log calls are left out: they change no state of the program.
\<close>

subsection \<open>Exceptions and Python values\<close>

datatype exc =
    AsyncioTimeoutError          \<comment> \<open>\<open>asyncio.TimeoutError\<close>\<close>
  | OpenAIError                  \<comment> \<open>\<open>openai.OpenAIError\<close> and its subclasses\<close>
  | ValidationError              \<comment> \<open>\<open>pydantic.ValidationError\<close>\<close>
  | TypeError
  | ValueError
  | TelegramTimedOut             \<comment> \<open>\<open>telegram.error.TimedOut\<close>\<close>
  | TelegramForbidden            \<comment> \<open>\<open>telegram.error.Forbidden\<close>\<close>
  | TelegramError                \<comment> \<open>any other \<open>telegram.error.TelegramError\<close>\<close>
  | IndexError
  | MultipleResultsFound         \<comment> \<open>raised by \<open>scalar_one_or_none\<close> on two or more rows\<close>
  | RuntimeError string
  | PyException string           \<comment> \<open>a plain \<open>Exception(msg)\<close>\<close>
  | OtherException string        \<comment> \<open>any exception class not listed above\<close>

datatype pyval = PNone | PBool bool | PInt int

text \<open>Python's truth value of a flag: \<open>None\<close>, \<open>False\<close> and \<open>0\<close> are false.\<close>

fun truthy :: "pyval \<Rightarrow> bool" where
  "truthy PNone = False"
| "truthy (PBool b) = b"
| "truthy (PInt n) = (n \<noteq> 0)"

subsection \<open>The session cache (\<^verbatim>\<open>cache.py\<close>)\<close>

type_synonym user_id = int
type_synonym topic_id = int
type_synonym lock = nat

record DataCache =
  user_locks :: "user_id \<rightharpoonup> lock"
  user_data :: "user_id \<rightharpoonup> (string \<rightharpoonup> pyval)"
  topic_data :: "topic_id \<rightharpoonup> (string \<rightharpoonup> pyval)"
  user_message_time_queues :: "user_id \<rightharpoonup> real list"
  lock_counter :: nat

definition new_cache :: DataCache where
  "new_cache = \<lparr> user_locks = Map.empty, user_data = Map.empty, topic_data = Map.empty,
                 user_message_time_queues = Map.empty, lock_counter = 0 \<rparr>"

text \<open>\<open>dict.setdefault(k, v)\<close>: the stored value when the key is present, else \<open>v\<close>, stored.\<close>

definition setdefault :: "('k \<rightharpoonup> 'v) \<Rightarrow> 'k \<Rightarrow> 'v \<Rightarrow> 'v \<times> ('k \<rightharpoonup> 'v)" where
  "setdefault m k v = (case m k of None \<Rightarrow> (v, m(k \<mapsto> v)) | Some w \<Rightarrow> (w, m))"

text \<open>
  \<open>DataCache.get_user_lock\<close>: the lock of the user, created on first access.
  \<open>asyncio.Lock()\<close> allocates a new object, whose identity is the current \<open>lock_counter\<close>.
\<close>

definition get_user_lock :: "DataCache \<Rightarrow> user_id \<Rightarrow> lock \<times> DataCache" where
  "get_user_lock c uid =
     (case user_locks c uid of
        None \<Rightarrow>
          (let fresh = lock_counter c;
               (l, locks') = setdefault (user_locks c) uid fresh
           in (l, c\<lparr>user_locks := locks', lock_counter := Suc fresh\<rparr>))
      | Some l \<Rightarrow> (l, c))"

definition get_user_data_dict :: "DataCache \<Rightarrow> user_id \<Rightarrow> (string \<rightharpoonup> pyval) \<times> DataCache" where
  \<comment> \<open>\<open>DataCache._get_user_data\<close>\<close>
  "get_user_data_dict c uid =
     (case user_data c uid of
        None \<Rightarrow> (Map.empty, c\<lparr>user_data := (user_data c)(uid \<mapsto> Map.empty)\<rparr>)
      | Some d \<Rightarrow> (d, c))"

definition get_user_message_time_queue :: "DataCache \<Rightarrow> user_id \<Rightarrow> real list \<times> DataCache" where
  \<comment> \<open>\<open>DataCache._get_user_message_time_queue\<close>\<close>
  "get_user_message_time_queue c uid =
     (case user_message_time_queues c uid of
        None \<Rightarrow> ([], c\<lparr>user_message_time_queues := (user_message_time_queues c)(uid \<mapsto> [])\<rparr>)
      | Some q \<Rightarrow> (q, c))"

text \<open>The loop \<^verbatim>\<open>while q and (now - q[0]) > window: q.popleft()\<close>.\<close>

fun evict :: "real \<Rightarrow> real \<Rightarrow> real list \<Rightarrow> real list" where
  "evict now window [] = []"
| "evict now window (t # q) = (if now - t > window then evict now window q else t # q)"

text \<open>
  \<open>DataCache.flood_message\<close>. The deque is mutated in place, so the dict entry of the user holds
  the queue after the append and the evictions, until the entry is popped.
\<close>

definition flood_message :: "DataCache \<Rightarrow> user_id \<Rightarrow> real \<Rightarrow> real \<Rightarrow> nat \<times> DataCache" where
  "flood_message c uid window now =
     (if window \<le> 0 then (0, c)
      else
        let (q0, c1) = get_user_message_time_queue c uid;
            q1 = q0 @ [now];
            q2 = evict now window q1;
            c2 = c1\<lparr>user_message_time_queues := (user_message_time_queues c1)(uid \<mapsto> q2)\<rparr>;
            c3 = (if q2 = [] then c2\<lparr>user_message_time_queues := (user_message_time_queues c2)(uid := None)\<rparr>
                  else c2)
        in (length q2, c3))"

definition get_topic_data_dict :: "DataCache \<Rightarrow> topic_id \<Rightarrow> (string \<rightharpoonup> pyval) \<times> DataCache" where
  \<comment> \<open>\<open>DataCache._get_topic_data\<close>\<close>
  "get_topic_data_dict c tid =
     (case topic_data c tid of
        None \<Rightarrow> (Map.empty, c\<lparr>topic_data := (topic_data c)(tid \<mapsto> Map.empty)\<rparr>)
      | Some d \<Rightarrow> (d, c))"

definition get_flag :: "DataCache \<Rightarrow> user_id \<Rightarrow> string \<Rightarrow> pyval \<Rightarrow> pyval \<times> DataCache" where
  "get_flag c uid key dflt =
     (let (d, c1) = get_user_data_dict c uid
      in (case d key of None \<Rightarrow> dflt | Some v \<Rightarrow> v, c1))"

definition set_flag :: "DataCache \<Rightarrow> user_id \<Rightarrow> string \<Rightarrow> pyval \<Rightarrow> DataCache" where
  "set_flag c uid key v =
     (let (d, c1) = get_user_data_dict c uid
      in c1\<lparr>user_data := (user_data c1)(uid \<mapsto> d(key \<mapsto> v))\<rparr>)"

definition get_topic :: "DataCache \<Rightarrow> topic_id \<Rightarrow> string \<Rightarrow> pyval \<Rightarrow> pyval \<times> DataCache" where
  "get_topic c tid key dflt =
     (let (d, c1) = get_topic_data_dict c tid
      in (case d key of None \<Rightarrow> dflt | Some v \<Rightarrow> v, c1))"

definition set_topic :: "DataCache \<Rightarrow> topic_id \<Rightarrow> string \<Rightarrow> pyval \<Rightarrow> DataCache" where
  "set_topic c tid key v =
     (let (d, c1) = get_topic_data_dict c tid
      in c1\<lparr>topic_data := (topic_data c1)(tid \<mapsto> d(key \<mapsto> v))\<rparr>)"

definition clear_user_all :: "DataCache \<Rightarrow> DataCache" where
  "clear_user_all c = c\<lparr>user_data := Map.empty, user_locks := Map.empty\<rparr>"

definition clear_topic_all :: "DataCache \<Rightarrow> DataCache" where
  "clear_topic_all c = c\<lparr>topic_data := Map.empty\<rparr>"

text \<open>
  A sequence of calls of the flood recorder for one user, made at the clock readings \<open>ts\<close> in
  this order: the counts returned, and the cache after the last call.
\<close>

fun flood_calls :: "DataCache \<Rightarrow> user_id \<Rightarrow> real \<Rightarrow> real list \<Rightarrow> nat list \<times> DataCache" where
  "flood_calls c uid window [] = ([], c)"
| "flood_calls c uid window (t # ts) =
     (let (n, c1) = flood_message c uid window t;
          (ns, c2) = flood_calls c1 uid window ts
      in (n # ns, c2))"

text \<open>The operations of the cache, for runs that interleave them.\<close>

datatype cache_op =
    GetUserLock user_id
  | GetFlag user_id string pyval
  | SetFlag user_id string pyval
  | GetTopic topic_id string pyval
  | SetTopic topic_id string pyval
  | FloodMessage user_id real real
  | ClearUserAll
  | ClearTopicAll

fun apply_cache_op :: "DataCache \<Rightarrow> cache_op \<Rightarrow> DataCache" where
  "apply_cache_op c (GetUserLock uid) = snd (get_user_lock c uid)"
| "apply_cache_op c (GetFlag uid key dflt) = snd (get_flag c uid key dflt)"
| "apply_cache_op c (SetFlag uid key v) = set_flag c uid key v"
| "apply_cache_op c (GetTopic tid key dflt) = snd (get_topic c tid key dflt)"
| "apply_cache_op c (SetTopic tid key v) = set_topic c tid key v"
| "apply_cache_op c (FloodMessage uid window now) = snd (flood_message c uid window now)"
| "apply_cache_op c ClearUserAll = clear_user_all c"
| "apply_cache_op c ClearTopicAll = clear_topic_all c"

definition run_cache_ops :: "DataCache \<Rightarrow> cache_op list \<Rightarrow> DataCache" where
  "run_cache_ops c ops = foldl apply_cache_op c ops"

text \<open>The queue the cache holds for a user; a user without an entry has the empty queue.\<close>

definition queue_of :: "DataCache \<Rightarrow> user_id \<Rightarrow> real list" where
  "queue_of c uid = (case user_message_time_queues c uid of None \<Rightarrow> [] | Some q \<Rightarrow> q)"

text \<open>
  Lock identities are well formed when every registered lock was allocated before the current
  counter and no two users share a lock object. The empty cache is well formed and every
  operation keeps it so.
\<close>

definition locks_wf :: "DataCache \<Rightarrow> bool" where
  "locks_wf c \<longleftrightarrow>
     (\<forall>u l. user_locks c u = Some l \<longrightarrow> l < lock_counter c) \<and>
     (\<forall>u v l. user_locks c u = Some l \<and> user_locks c v = Some l \<longrightarrow> u = v)"

subsection \<open>The captcha text (\<^verbatim>\<open>verify.py\<close>) and Python's string functions\<close>

text \<open>
  Texts are strings of 8-bit characters, read as ASCII: \<open>str.upper\<close>, \<open>str.lower\<close> and
  \<open>str.strip\<close> are modelled on ASCII, where they act character by character.
\<close>

definition upper_char :: "char \<Rightarrow> char" where
  "upper_char ch = (let n = (of_char ch :: nat) in if 97 \<le> n \<and> n \<le> 122 then char_of (n - 32) else ch)"


definition py_upper :: "string \<Rightarrow> string" where
  "py_upper s = map upper_char s"


definition is_space :: "char \<Rightarrow> bool" where
  \<comment> \<open>the ASCII characters for which \<open>str.isspace\<close> holds: TAB, LF, VT, FF, CR, FS, GS, RS, US, space\<close>
  "is_space ch = (let n = (of_char ch :: nat) in (9 \<le> n \<and> n \<le> 13) \<or> (28 \<le> n \<and> n \<le> 32))"

definition py_strip :: "string \<Rightarrow> string" where
  "py_strip s = rev (dropWhile is_space (rev (dropWhile is_space s)))"


definition allowed_chars :: string where
  "allowed_chars = ''ABCEFHJKLMNPRTVXYZ''"

text \<open>
  \<open>secrets.choice(seq)\<close> raises IndexError on an empty sequence and returns
  \<open>seq[randbelow(len(seq))]\<close> otherwise; \<open>r\<close> is the number drawn from the random source.
\<close>

definition secrets_choice :: "'a list \<Rightarrow> nat \<Rightarrow> exc + 'a" where
  "secrets_choice seq r = (if seq = [] then Inl IndexError else Inr (seq ! (r mod length seq)))"

text \<open>
  \<^verbatim>\<open>''.join(secrets.choice(list(self.allowed_chars)) for _ in range(5))\<close>, the first statement
  of \<open>Visual.sync_generate_captcha_gif\<close>; \<open>rnd i\<close> is the number drawn for position \<open>i\<close>.
\<close>

fun join_choices :: "(nat \<Rightarrow> nat) \<Rightarrow> nat list \<Rightarrow> exc + string" where
  "join_choices rnd [] = Inr []"
| "join_choices rnd (i # is) =
     (case secrets_choice allowed_chars (rnd i) of
        Inl e \<Rightarrow> Inl e
      | Inr ch \<Rightarrow> (case join_choices rnd is of Inl e \<Rightarrow> Inl e | Inr s \<Rightarrow> Inr (ch # s)))"

definition captcha_text :: "(nat \<Rightarrow> nat) \<Rightarrow> exc + string" where
  "captcha_text rnd = join_choices rnd [0..<5]"

subsection \<open>The spam detector (\<^verbatim>\<open>spam_detect.py\<close>)\<close>

text \<open>
  The reason of a verdict is one of the program's fixed texts or a text of the classifier. The
  fixed texts are Chinese string literals in the source; they are named here:
  \<open>KeywordTriggered w\<close> is the f-string "keyword triggered: w", \<open>NoKeywordTriggered\<close> is
  "no keyword triggered", \<open>NoTextMessage\<close> is "message without text", \<open>AdminMessage\<close> is
  "administrator message".
\<close>

datatype reason =
    KeywordTriggered string
  | NoKeywordTriggered
  | NoTextMessage
  | AdminMessage
  | ClassifierReason string

record Spam =
  spam :: bool
  reason :: reason

datatype 'a outcome = Returned 'a | Raised exc

record SpamDetector =
  base_url :: string
  model :: string
  token :: string

definition replace_base_url :: "string \<Rightarrow> string" where
  \<comment> \<open>\<open>url.rstrip('/')\<close> when the url ends with a slash\<close>
  "replace_base_url url =
     (if url \<noteq> [] \<and> last url = CHR ''/'' then rev (dropWhile (\<lambda>ch. ch = CHR ''/'') (rev url)) else url)"

text \<open>\<^verbatim>\<open>w in text\<close> for strings: \<open>w\<close> occurs in \<open>text\<close> as a contiguous run of characters.\<close>

fun py_in :: "string \<Rightarrow> string \<Rightarrow> bool" where
  "py_in w [] = (w = [])"
| "py_in w (ch # cs) = (prefix w (ch # cs) \<or> py_in w cs)"

text \<open>
  \<open>SpamDetector._detect_of_words\<close>. The list \<open>prohibited_words\<close> is read at import time from
  \<^verbatim>\<open>assets/prohibited_words.txt\<close>, a file that is not part of the sources at hand: it is an
  argument. \<^verbatim>\<open>next((w for w in prohibited_words if w in text), None)\<close> is \<open>find\<close>.
\<close>

definition detect_of_words :: "string list \<Rightarrow> string \<Rightarrow> Spam" where
  "detect_of_words prohibited_words text =
     (case find (\<lambda>w. py_in w text) prohibited_words of
        Some word \<Rightarrow> \<lparr>spam = True, reason = KeywordTriggered word\<rparr>
      | None \<Rightarrow> \<lparr>spam = False, reason = NoKeywordTriggered\<rparr>)"

text \<open>
  The two library calls inside the \<^verbatim>\<open>try\<close> of \<open>check_spam\<close> belong to the environment:
  \<open>detect_of_openai\<close> is the rate-limited request under its deadline of 40 seconds, which
  returns the content of the answer (a string or \<open>None\<close>) or raises; \<open>model_validate_json\<close>
  is pydantic's validation of the answer against the class \<open>Spam\<close>, which returns the verdict
  or raises.
\<close>

record classifier_env =
  detect_of_openai :: "string \<Rightarrow> string option outcome"
  model_validate_json :: "string option \<Rightarrow> Spam outcome"

definition try_classify :: "classifier_env \<Rightarrow> string \<Rightarrow> Spam outcome" where
  \<comment> \<open>the body of the \<^verbatim>\<open>try\<close>: the first statement that raises ends it\<close>
  "try_classify env text =
     (case detect_of_openai env text of
        Raised e \<Rightarrow> Raised e
      | Returned response \<Rightarrow> model_validate_json env response)"

definition check_spam ::
  "SpamDetector \<Rightarrow> string list \<Rightarrow> classifier_env \<Rightarrow> string \<Rightarrow> exc + (bool \<times> reason)" where
  "check_spam sd prohibited_words env text =
     (if token sd = [] \<or> base_url sd = [] \<or> model sd = [] then
        (let s = detect_of_words prohibited_words text in Inr (spam s, reason s))
      else
        (case try_classify env text of
           Returned s \<Rightarrow> Inr (spam s, reason s)
         | Raised e \<Rightarrow>
             if e = AsyncioTimeoutError then
               (let s = detect_of_words prohibited_words text in Inr (spam s, reason s))
             else if e = OpenAIError then
               (let s = detect_of_words prohibited_words text in Inr (spam s, reason s))
             else if e = ValidationError \<or> e = TypeError \<or> e = ValueError then
               (let s = detect_of_words prohibited_words text in Inr (spam s, reason s))
             else Inl e))"

subsection \<open>The repository (\<^verbatim>\<open>sql/model.py\<close>, \<^verbatim>\<open>sql/repository.py\<close>)\<close>

text \<open>
  A table is the list of its rows, in insertion order. A \<open>datetime\<close> is a number of
  microseconds. The columns \<open>id\<close>, \<open>userid\<close>, \<open>spam\<close>, \<open>reason\<close> and \<open>time\<close> carry the
  initial of their table, since a field name is global in HOL. A transaction whose body raises
  is rolled back: a repository function returns the exception, or the repository after the
  commit (with the value it returns, when it returns one).
\<close>

type_synonym datetime = int

record Verify =
  v_id :: int
  v_userid :: int
  code :: string
  expires_at :: datetime
  verified :: bool

record Block =
  b_id :: int
  b_userid :: int
  pinned_msg_id :: "int option"

record Messages =
  m_id :: int
  m_userid :: int
  private_message_id :: int
  topic_message_id :: int
  m_spam :: bool
  m_reason :: reason
  m_time :: datetime

record Users =
  u_id :: int
  u_userid :: int
  username :: "string option"
  first_name :: string
  last_name :: "string option"
  full_name :: string
  language_code :: "string option"
  is_premium :: bool
  topic :: int
  first_active_time :: datetime

record Repo =
  verify_users :: "Verify list"
  block_users :: "Block list"
  messages :: "Messages list"
  users :: "Users list"

definition empty_repo :: Repo where
  "empty_repo = \<lparr>verify_users = [], block_users = [], messages = [], users = []\<rparr>"

text \<open>The value an autoincrement primary key takes: one more than the largest id in the table.\<close>

definition next_id :: "int list \<Rightarrow> int" where
  "next_id ids = fold max ids 0 + 1"

text \<open>\<open>Result.scalar_one_or_none()\<close>: the only row, \<open>None\<close> without a row, an exception on several.\<close>

definition scalar_one_or_none :: "'a list \<Rightarrow> exc + 'a option" where
  "scalar_one_or_none rows =
     (case rows of [] \<Rightarrow> Inr None | [r] \<Rightarrow> Inr (Some r) | _ \<Rightarrow> Inl MultipleResultsFound)"

text \<open>
  \<open>UFRepository._add_and_flush_nested_ignore_integrity\<close>, once per table it is used on. The
  flush inside the savepoint raises IntegrityError exactly when the new row violates a unique
  constraint of the table; the savepoint is then rolled back and the function returns \<open>False\<close>.
  Table \<open>messages\<close>: unique \<open>(userid, private_message_id)\<close> and unique \<open>topic_message_id\<close>.
  Table \<open>users\<close>: unique \<open>userid\<close> and unique \<open>topic\<close>. Table \<open>block_users\<close>: unique
  \<open>userid\<close> and unique \<open>pinned_msg_id\<close>, where SQL's NULL never conflicts.
\<close>

definition messages_conflict :: "Messages list \<Rightarrow> Messages \<Rightarrow> bool" where
  "messages_conflict rows e \<longleftrightarrow>
     list_ex (\<lambda>r. (m_userid r = m_userid e \<and> private_message_id r = private_message_id e)
                 \<or> topic_message_id r = topic_message_id e) rows"

definition add_and_flush_messages :: "Repo \<Rightarrow> Messages \<Rightarrow> bool \<times> Repo" where
  "add_and_flush_messages db e =
     (if messages_conflict (messages db) e then (False, db)
      else (True, db\<lparr>messages := messages db @ [e\<lparr>m_id := next_id (map m_id (messages db))\<rparr>]\<rparr>))"

definition users_conflict :: "Users list \<Rightarrow> Users \<Rightarrow> bool" where
  "users_conflict rows e \<longleftrightarrow> list_ex (\<lambda>r. u_userid r = u_userid e \<or> topic r = topic e) rows"

definition add_and_flush_users :: "Repo \<Rightarrow> Users \<Rightarrow> bool \<times> Repo" where
  "add_and_flush_users db e =
     (if users_conflict (users db) e then (False, db)
      else (True, db\<lparr>users := users db @ [e\<lparr>u_id := next_id (map u_id (users db))\<rparr>]\<rparr>))"

definition block_conflict :: "Block list \<Rightarrow> Block \<Rightarrow> bool" where
  "block_conflict rows e \<longleftrightarrow>
     list_ex (\<lambda>r. b_userid r = b_userid e
                 \<or> (pinned_msg_id e \<noteq> None \<and> pinned_msg_id r = pinned_msg_id e)) rows"

definition add_and_flush_block :: "Repo \<Rightarrow> Block \<Rightarrow> bool \<times> Repo" where
  "add_and_flush_block db e =
     (if block_conflict (block_users db) e then (False, db)
      else (True, db\<lparr>block_users := block_users db @ [e\<lparr>b_id := next_id (map b_id (block_users db))\<rparr>]\<rparr>))"

definition select_valid_verify :: "Repo \<Rightarrow> int \<Rightarrow> exc + Verify option" where
  "select_valid_verify db userid = scalar_one_or_none (filter (\<lambda>r. v_userid r = userid) (verify_users db))"

definition insert_verify :: "Repo \<Rightarrow> int \<Rightarrow> string \<Rightarrow> int \<Rightarrow> datetime \<Rightarrow> exc + Repo" where
  \<comment> \<open>\<open>now\<close> is the reading of \<open>datetime.now()\<close>; the ttl is in seconds\<close>
  "insert_verify db userid cd ttl_seconds now =
     (let exp = now + ttl_seconds * 1000000 in
      case scalar_one_or_none (filter (\<lambda>r. v_userid r = userid) (verify_users db)) of
        Inl e \<Rightarrow> Inl e
      | Inr None \<Rightarrow>
          Inr (db\<lparr>verify_users := verify_users db @
                 [\<lparr>v_id = next_id (map v_id (verify_users db)), v_userid = userid, code = cd,
                   expires_at = exp, verified = False\<rparr>]\<rparr>)
      | Inr (Some entity) \<Rightarrow>
          Inr (db\<lparr>verify_users :=
                 map (\<lambda>r. if v_id r = v_id entity then r\<lparr>code := cd, expires_at := exp, verified := False\<rparr> else r)
                     (verify_users db)\<rparr>))"

definition update_verified :: "Repo \<Rightarrow> int \<Rightarrow> bool \<Rightarrow> exc + Repo" where
  "update_verified db userid b =
     (case scalar_one_or_none (filter (\<lambda>r. v_userid r = userid) (verify_users db)) of
        Inl e \<Rightarrow> Inl e
      | Inr None \<Rightarrow> Inr db
      | Inr (Some entity) \<Rightarrow>
          Inr (db\<lparr>verify_users :=
                 map (\<lambda>r. if v_id r = v_id entity then r\<lparr>verified := b\<rparr> else r) (verify_users db)\<rparr>))"

definition select_verified :: "Repo \<Rightarrow> int \<Rightarrow> exc + bool" where
  "select_verified db userid =
     (case scalar_one_or_none (filter (\<lambda>r. v_userid r = userid) (verify_users db)) of
        Inl e \<Rightarrow> Inl e
      | Inr None \<Rightarrow> Inr False
      | Inr (Some re) \<Rightarrow> Inr (verified re))"

definition update_verify_code :: "Repo \<Rightarrow> int \<Rightarrow> string \<Rightarrow> int \<Rightarrow> datetime \<Rightarrow> exc + Repo" where
  "update_verify_code db userid cd ttl_seconds now =
     (case scalar_one_or_none (filter (\<lambda>r. v_userid r = userid) (verify_users db)) of
        Inl e \<Rightarrow> Inl e
      | Inr None \<Rightarrow> Inr db
      | Inr (Some entity) \<Rightarrow>
          Inr (db\<lparr>verify_users :=
                 map (\<lambda>r. if v_id r = v_id entity
                           then r\<lparr>code := cd, expires_at := now + ttl_seconds * 1000000\<rparr> else r)
                     (verify_users db)\<rparr>))"

datatype user_key = ByUserid | ByTopic

definition select_user :: "Repo \<Rightarrow> int \<Rightarrow> user_key \<Rightarrow> exc + Users option" where
  "select_user db i k =
     (case k of
        ByUserid \<Rightarrow> scalar_one_or_none (filter (\<lambda>r. u_userid r = i) (users db))
      | ByTopic \<Rightarrow> scalar_one_or_none (filter (\<lambda>r. topic r = i) (users db)))"

definition insert_user :: "Repo \<Rightarrow> Users \<Rightarrow> exc + Repo" where
  \<comment> \<open>the row carries the arguments of the source function and \<open>first_active_time = now\<close>\<close>
  "insert_user db entity =
     (case scalar_one_or_none (filter (\<lambda>r. u_userid r = u_userid entity) (users db)) of
        Inl e \<Rightarrow> Inl e
      | Inr (Some existing) \<Rightarrow> Inr db
      | Inr None \<Rightarrow> Inr (snd (add_and_flush_users db entity)))"

definition insert_block :: "Repo \<Rightarrow> int \<Rightarrow> int option \<Rightarrow> exc + Repo" where
  "insert_block db userid pinned =
     (case scalar_one_or_none (filter (\<lambda>r. b_userid r = userid) (block_users db)) of
        Inl e \<Rightarrow> Inl e
      | Inr (Some existing) \<Rightarrow>
          if pinned \<noteq> None \<and> pinned_msg_id existing = None then
            (if list_ex (\<lambda>r. pinned_msg_id r = pinned) (block_users db) then Inr db
             else Inr (db\<lparr>block_users :=
                        map (\<lambda>r. if b_id r = b_id existing then r\<lparr>pinned_msg_id := pinned\<rparr> else r)
                            (block_users db)\<rparr>))
          else Inr db
      | Inr None \<Rightarrow>
          Inr (snd (add_and_flush_block db \<lparr>b_id = 0, b_userid = userid, pinned_msg_id = pinned\<rparr>)))"

definition select_block :: "Repo \<Rightarrow> int \<Rightarrow> exc + bool" where
  "select_block db userid =
     (case scalar_one_or_none (filter (\<lambda>r. b_userid r = userid) (block_users db)) of
        Inl e \<Rightarrow> Inl e
      | Inr r \<Rightarrow> Inr (r \<noteq> None))"

text \<open>
  \<open>UFRepository.insert_message\<close>. The new row gets its id at the flush.
  \<open>insert_message_requery\<close> is the rest of the function after the flush, from \<^verbatim>\<open>if ok: return\<close>
  on: after a failed flush the table is queried by \<open>topic_message_id\<close>, then by
  \<open>(userid, private_message_id)\<close>.
\<close>

definition insert_message_requery :: "bool \<Rightarrow> Repo \<Rightarrow> int \<Rightarrow> int \<Rightarrow> int \<Rightarrow> exc + Repo" where
  "insert_message_requery ok db1 userid private_msg_id topic_msg_id =
     (if ok then Inr db1
      else
        case scalar_one_or_none (filter (\<lambda>r. topic_message_id r = topic_msg_id) (messages db1)) of
          Inl e \<Rightarrow> Inl e
        | Inr (Some existing_by_topic) \<Rightarrow> Inr db1
        | Inr None \<Rightarrow>
            (case scalar_one_or_none
                    (filter (\<lambda>r. m_userid r = userid \<and> private_message_id r = private_msg_id)
                            (messages db1)) of
               Inl e \<Rightarrow> Inl e
             | Inr (Some existing_by_private) \<Rightarrow> Inr db1
             | Inr None \<Rightarrow> Inl (RuntimeError ''insert_message failed but no existing row found'')))"

definition insert_message ::
  "Repo \<Rightarrow> int \<Rightarrow> int \<Rightarrow> int \<Rightarrow> bool \<Rightarrow> reason \<Rightarrow> datetime \<Rightarrow> exc + Repo" where
  "insert_message db userid private_msg_id topic_msg_id sp rs now =
     (let entity = \<lparr>m_id = 0, m_userid = userid, private_message_id = private_msg_id,
                    topic_message_id = topic_msg_id, m_spam = sp, m_reason = rs, m_time = now\<rparr>;
          (ok, db1) = add_and_flush_messages db entity
      in insert_message_requery ok db1 userid private_msg_id topic_msg_id)"

definition select_message :: "Repo \<Rightarrow> int \<Rightarrow> bool \<Rightarrow> int option \<Rightarrow> exc + Messages option" where
  \<comment> \<open>in SQL a comparison with NULL selects no row: \<open>userid = None\<close> finds nothing\<close>
  "select_message db msg_id topic_mode userid =
     (if topic_mode then scalar_one_or_none (filter (\<lambda>r. topic_message_id r = msg_id) (messages db))
      else scalar_one_or_none
             (filter (\<lambda>r. Some (m_userid r) = userid \<and> private_message_id r = msg_id) (messages db)))"

definition delete_message :: "Repo \<Rightarrow> Messages \<Rightarrow> Repo" where
  \<comment> \<open>\<open>session.delete(entity)\<close> deletes the row with the primary key of the entity\<close>
  "delete_message db row = db\<lparr>messages := filter (\<lambda>r. m_id r \<noteq> m_id row) (messages db)\<rparr>"

text \<open>The unique constraints of the table \<open>messages\<close>, with its primary key.\<close>

definition messages_unique :: "Messages list \<Rightarrow> bool" where
  "messages_unique rows \<longleftrightarrow>
     distinct (map m_id rows) \<and>
     distinct (map topic_message_id rows) \<and>
     distinct (map (\<lambda>r. (m_userid r, private_message_id r)) rows)"

subsection \<open>Updates, the gateway and the state of the bot (\<^verbatim>\<open>bot.py\<close>)\<close>

text \<open>
  An update carries an optional message, user and chat, as the handlers test them. Of a
  message the handlers read its id, its text, its thread id and the id of the message it
  replies to.
\<close>

datatype chat_kind = Private | Group | Supergroup | Channel

record TgUser =
  tg_id :: int
  tg_first_name :: string
  tg_last_name :: "string option"
  tg_username :: "string option"
  tg_language_code :: "string option"
  tg_is_premium :: "bool option"

record TgChat =
  chat_id :: int
  chat_type :: chat_kind
  is_forum :: bool

record TgMessage =
  message_id :: int
  msg_text :: "string option"
  message_thread_id :: "int option"
  reply_to_message :: "int option"

record Update =
  message :: "TgMessage option"
  effective_user :: "TgUser option"
  effective_chat :: "TgChat option"

definition tg_full_name :: "TgUser \<Rightarrow> string" where
  \<comment> \<open>\<open>telegram.User.full_name\<close>\<close>
  "tg_full_name usr =
     (case tg_last_name usr of
        None \<Rightarrow> tg_first_name usr
      | Some l \<Rightarrow> if l = [] then tg_first_name usr else tg_first_name usr @ '' '' @ l)"

text \<open>
  The texts the bot sends are Chinese string literals in the source; each one is named here
  by what it says. \<open>WrongCodeRemaining n\<close> is the f-string "wrong code, you have n tries left",
  \<open>BannedForFlooding\<close> is "you have been banned, reason: flooding", \<open>TimeoutNotDelivered\<close> is
  "Bot timed out, your message was not delivered; you can try to send it again or use another
  way of contact".
\<close>

datatype bot_text =
    YouAreBanned
  | BannedForFlooding
  | FloodWarning
  | BotErrorUnavailable
  | TimeoutNotDelivered
  | PleaseWait
  | CaptchaFirst
  | CaptchaPrompt
  | CaptchaExpired
  | VerificationPassed
  | WrongCodeRemaining int
  | TooManyWrongCodes
  | UserCard int string bool
  | CreateTopicFailed string int exc
  | ReasonText reason
  | ReplyToAMessage
  | InvalidMessageObject
  | NoLongerDeletable

text \<open>
  A request to the messaging gateway. \<open>ReplyText chat msg t\<close> is \<open>reply_text(t)\<close> on the message
  \<open>msg\<close> of the chat, \<open>ReplyAnimation chat msg code t\<close> is \<open>reply_animation\<close> with the image of
  the captcha code and the caption \<open>t\<close>, \<open>CreateForumTopic chat name userid\<close> creates the topic
  named by the f-string of the name and the user id, \<open>ForwardMessage chat thread from msg\<close> and
  \<open>CopyMessage chat thread from msg\<close> carry the arguments of the calls of the same names.
\<close>

datatype request =
    ReplyText int int bot_text
  | ReplyAnimation int int string bot_text
  | SendMessage int "int option" bot_text
  | CreateForumTopic int string int
  | ForwardMessage int int int int
  | CopyMessage int "int option" int int
  | DeleteMessage int int

text \<open>
  The environment of one run of a handler: the gateway answers a request with the id of the
  message it sent (of the thread it created) or raises; the clocks are read once; \<open>draws\<close> is
  the random source of the captcha.
\<close>

record env =
  gateway :: "request \<Rightarrow> int outcome"
  classifier :: classifier_env
  monotonic :: real
  wall_clock :: datetime
  draws :: "nat \<Rightarrow> nat"

record MyBot =
  topic_chat_id :: int
  admin_user_id :: int
  ttl :: int
  spam_topic_id :: int
  spamd :: SpamDetector
  prohibited_words :: "string list"

text \<open>
  The state of the bot: its cache, its repository, and the requests the gateway has answered,
  in order. A request that raised is not in \<open>sent\<close>.
\<close>

record bot_state =
  cache :: DataCache
  uf_repo :: Repo
  sent :: "request list"

definition call_gateway :: "env \<Rightarrow> request \<Rightarrow> bot_state \<Rightarrow> (exc + int) \<times> bot_state" where
  "call_gateway ev rq s =
     (case gateway ev rq of
        Raised e \<Rightarrow> (Inl e, s)
      | Returned r \<Rightarrow> (Inr r, s\<lparr>sent := sent s @ [rq]\<rparr>))"

text \<open>The value of a flag used as a number: Python's \<open>bool\<close> is an \<open>int\<close>, \<open>None\<close> is not.\<close>

fun int_of_pyval :: "pyval \<Rightarrow> exc + int" where
  "int_of_pyval PNone = Inl TypeError"
| "int_of_pyval (PBool b) = Inr (if b then 1 else 0)"
| "int_of_pyval (PInt n) = Inr n"

text \<open>
  \<open>MyBot.create_topic\<close>. \<open>create_topic_try\<close> is the body of its \<^verbatim>\<open>try\<close>: it returns the
  thread id of the new topic.
\<close>

definition create_topic_try ::
  "MyBot \<Rightarrow> env \<Rightarrow> TgUser \<Rightarrow> string \<Rightarrow> bool \<Rightarrow> bot_state \<Rightarrow> (exc + int) \<times> bot_state" where
  "create_topic_try self ev usr userfullname premium s =
     (case call_gateway ev (CreateForumTopic (topic_chat_id self) userfullname (tg_id usr)) s of
        (Inl e, s1) \<Rightarrow> (Inl e, s1)
      | (Inr thread, s1) \<Rightarrow>
          (case call_gateway ev (SendMessage (topic_chat_id self) (Some thread)
                                   (UserCard (tg_id usr) userfullname premium)) s1 of
             (Inl e, s2) \<Rightarrow> (Inl e, s2)
           | (Inr sent_id, s2) \<Rightarrow>
               (case insert_user (uf_repo s2)
                       \<lparr>u_id = 0, u_userid = tg_id usr, username = tg_username usr,
                        first_name = tg_first_name usr, last_name = tg_last_name usr,
                        full_name = userfullname, language_code = tg_language_code usr,
                        is_premium = premium, topic = thread,
                        first_active_time = wall_clock ev\<rparr> of
                  Inl e \<Rightarrow> (Inl e, s2)
                | Inr db \<Rightarrow> (Inr thread, s2\<lparr>uf_repo := db\<rparr>))))"

definition create_topic :: "MyBot \<Rightarrow> env \<Rightarrow> Update \<Rightarrow> bot_state \<Rightarrow> (exc + unit) \<times> bot_state" where
  "create_topic self ev upd s =
     (case effective_user upd of
        None \<Rightarrow> (Inl ValueError, s)
      | Some usr \<Rightarrow>
          (let userid = tg_id usr;
               userfullname = (if length (tg_full_name usr) > 32 then take 16 (tg_first_name usr)
                               else tg_full_name usr);
               premium = (case tg_is_premium usr of None \<Rightarrow> False | Some b \<Rightarrow> b)
           in case select_user (uf_repo s) userid ByUserid of
                Inl e \<Rightarrow> (Inl e, s)
              | Inr (Some existing) \<Rightarrow>
                  (Inr (), s\<lparr>cache := set_flag (cache s) userid ''to_topic'' (PInt (topic existing))\<rparr>)
              | Inr None \<Rightarrow>
                  (case create_topic_try self ev usr userfullname premium s of
                     (Inl e, s1) \<Rightarrow>
                       (case call_gateway ev (SendMessage (admin_user_id self) None
                                                (CreateTopicFailed userfullname userid e)) s1 of
                          (Inl e', s2) \<Rightarrow> (Inl e', s2)
                        | (Inr sent_id, s2) \<Rightarrow> (Inr (), s2))
                   | (Inr thread, s1) \<Rightarrow>
                       (Inr (), s1\<lparr>cache := set_flag (cache s1) userid ''to_topic'' (PInt thread)\<rparr>))))"

definition forward_on_spam_topic ::
  "MyBot \<Rightarrow> env \<Rightarrow> int \<Rightarrow> int \<Rightarrow> reason \<Rightarrow> bot_state \<Rightarrow> (exc + int) \<times> bot_state" where
  "forward_on_spam_topic self ev from_chat_id msg_id rs s =
     (case call_gateway ev (ForwardMessage (topic_chat_id self) (spam_topic_id self) from_chat_id msg_id) s of
        (Inl e, s1) \<Rightarrow> (Inl e, s1)
      | (Inr fwd, s1) \<Rightarrow>
          (case call_gateway ev (ReplyText (topic_chat_id self) fwd (ReasonText rs)) s1 of
             (Inl e, s2) \<Rightarrow> (Inl e, s2)
           | (Inr sent_id, s2) \<Rightarrow> (Inr fwd, s2)))"

text \<open>
  \<open>MyBot.msg_to_topic\<close>, in the order of the source. \<open>resolve_topic_id\<close> is the block from
  \<^verbatim>\<open>topic_id = to_topic\<close> to the second \<open>set_flag\<close> (lines 363 to 374), \<open>message_verdict\<close> and
  \<open>relay_message\<close> the rest of the \<^verbatim>\<open>try\<close> (lines 376 to 404), \<open>msg_to_topic_try\<close> the whole body of the \<^verbatim>\<open>try\<close>.
  \<open>_check_spam_with_typing\<close> returns what \<open>check_spam\<close> returns; the typing indicator it
  keeps alive runs as a concurrent task and is left out.
\<close>

definition resolve_topic_id ::
  "MyBot \<Rightarrow> env \<Rightarrow> Update \<Rightarrow> int \<Rightarrow> TgChat \<Rightarrow> TgMessage \<Rightarrow> pyval \<Rightarrow> bot_state \<Rightarrow> (exc + int) \<times> bot_state" where
  "resolve_topic_id self ev upd userid chat m to_topic s =
     (if truthy to_topic then (int_of_pyval to_topic, s)
      else
        case select_user (uf_repo s) userid ByUserid of
          Inl e \<Rightarrow> (Inl e, s)
        | Inr (Some row) \<Rightarrow>
            (Inr (topic row), s\<lparr>cache := set_flag (cache s) userid ''to_topic'' (PInt (topic row))\<rparr>)
        | Inr None \<Rightarrow>
            (case create_topic self ev upd s of
               (Inl e, s1) \<Rightarrow> (Inl e, s1)
             | (Inr u, s1) \<Rightarrow>
                 (case select_user (uf_repo s1) userid ByUserid of
                    Inl e \<Rightarrow> (Inl e, s1)
                  | Inr None \<Rightarrow>
                      (case call_gateway ev (ReplyText (chat_id chat) (message_id m) BotErrorUnavailable) s1 of
                         (Inl e, s2) \<Rightarrow> (Inl e, s2)
                       | (Inr sent_id, s2) \<Rightarrow> (Inl (PyException ''create topic failed''), s2))
                  | Inr (Some row) \<Rightarrow>
                      (Inr (topic row),
                       s1\<lparr>cache := set_flag (cache s1) userid ''to_topic'' (PInt (topic row))\<rparr>))))"

definition message_verdict :: "MyBot \<Rightarrow> env \<Rightarrow> TgMessage \<Rightarrow> exc + (bool \<times> reason)" where
  \<comment> \<open>lines 376 to 385: a message with a text is classified, any other message is not spam\<close>
  "message_verdict self ev m =
     (case msg_text m of
        None \<Rightarrow> Inr (False, NoTextMessage)
      | Some txt \<Rightarrow>
          if txt \<noteq> [] then check_spam (spamd self) (prohibited_words self) (classifier ev) txt
          else Inr (False, NoTextMessage))"

definition relay_message ::
  "MyBot \<Rightarrow> env \<Rightarrow> int \<Rightarrow> TgChat \<Rightarrow> TgMessage \<Rightarrow> int \<Rightarrow> bot_state \<Rightarrow> (exc + unit) \<times> bot_state" where
  "relay_message self ev userid chat m topic_id s =
     (case message_verdict self ev m of
        Inl e \<Rightarrow> (Inl e, s)
      | Inr (is_spam, rs) \<Rightarrow>
          if is_spam then
            (case forward_on_spam_topic self ev (chat_id chat) (message_id m) rs s of
               (Inl e, s1) \<Rightarrow> (Inl e, s1)
             | (Inr to_topic_msg, s1) \<Rightarrow>
                 (case insert_message (uf_repo s1) userid (message_id m) to_topic_msg is_spam rs
                         (wall_clock ev) of
                    Inl e \<Rightarrow> (Inl e, s1)
                  | Inr db \<Rightarrow> (Inr (), s1\<lparr>uf_repo := db\<rparr>)))
          else
            (case call_gateway ev (CopyMessage (topic_chat_id self) (Some topic_id) (chat_id chat)
                                     (message_id m)) s of
               (Inl e, s1) \<Rightarrow> (Inl e, s1)
             | (Inr to_topic_msg, s1) \<Rightarrow>
                 (case insert_message (uf_repo s1) userid (message_id m) to_topic_msg is_spam rs
                         (wall_clock ev) of
                    Inl e \<Rightarrow> (Inl e, s1)
                  | Inr db \<Rightarrow> (Inr (), s1\<lparr>uf_repo := db\<rparr>))))"

definition msg_to_topic_try ::
  "MyBot \<Rightarrow> env \<Rightarrow> Update \<Rightarrow> int \<Rightarrow> TgChat \<Rightarrow> TgMessage \<Rightarrow> pyval \<Rightarrow> bot_state \<Rightarrow> (exc + unit) \<times> bot_state" where
  "msg_to_topic_try self ev upd userid chat m to_topic s =
     (let (msg_count, c1) = flood_message (cache s) userid 4 (monotonic ev);
          s1 = s\<lparr>cache := c1\<rparr>
      in if msg_count > 10 then
           (case call_gateway ev (ReplyText (chat_id chat) (message_id m) BannedForFlooding) s1 of
              (Inl e, s2) \<Rightarrow> (Inl e, s2)
            | (Inr sent_id, s2) \<Rightarrow>
                (let s3 = s2\<lparr>cache := set_flag (cache s2) userid ''block'' (PBool True)\<rparr>
                 in case insert_block (uf_repo s3) userid None of
                      Inl e \<Rightarrow> (Inl e, s3)
                    | Inr db \<Rightarrow> (Inr (), s3\<lparr>uf_repo := db\<rparr>)))
         else
           (case (if msg_count > 7
                  then call_gateway ev (ReplyText (chat_id chat) (message_id m) FloodWarning) s1
                  else (Inr 0, s1)) of
              (Inl e, s2) \<Rightarrow> (Inl e, s2)
            | (Inr sent_id, s2) \<Rightarrow>
                (case resolve_topic_id self ev upd userid chat m to_topic s2 of
                   (Inl e, s3) \<Rightarrow> (Inl e, s3)
                 | (Inr topic_id, s3) \<Rightarrow> relay_message self ev userid chat m topic_id s3)))"

definition msg_to_topic :: "MyBot \<Rightarrow> env \<Rightarrow> Update \<Rightarrow> bot_state \<Rightarrow> (exc + unit) \<times> bot_state" where
  "msg_to_topic self ev upd s =
     (case (message upd, effective_user upd, effective_chat upd) of
        (Some m, Some usr, Some chat) \<Rightarrow>
          (let userid = tg_id usr;
               (lck, c0) = get_user_lock (cache s) userid;
               s0 = s\<lparr>cache := c0\<rparr>
           in case select_block (uf_repo s0) userid of
                Inl e \<Rightarrow> (Inl e, s0)
              | Inr blocked \<Rightarrow>
                  if blocked then
                    (case call_gateway ev (ReplyText (chat_id chat) (message_id m) YouAreBanned) s0 of
                       (Inl e, s1) \<Rightarrow> (Inl e, s1)
                     | (Inr sent_id, s1) \<Rightarrow>
                         (Inr (), s1\<lparr>cache := set_flag (cache s1) userid ''block'' (PBool blocked)\<rparr>))
                  else
                    (let (to_topic, c1) = get_flag (cache s0) userid ''to_topic'' PNone;
                         s1 = s0\<lparr>cache := c1\<rparr>
                     in case msg_to_topic_try self ev upd userid chat m to_topic s1 of
                          (Inl e, s2) \<Rightarrow>
                            if e = TelegramTimedOut then
                              (case call_gateway ev (ReplyText (chat_id chat) (message_id m)
                                                       TimeoutNotDelivered) s2 of
                                 (Inl e', s3) \<Rightarrow> (Inl e', s3)
                               | (Inr sent_id, s3) \<Rightarrow> (Inr (), s3))
                            else (Inl e, s2)
                        | (Inr u, s2) \<Rightarrow> (Inr (), s2)))
      | _ \<Rightarrow> (Inr (), s))"

text \<open>
  The verification handlers. \<open>send_captcha_gif\<close> is \<open>MyBot._send_captcha_gif\<close>; its \<open>mode\<close> is
  \<open>True\<close> for "insert" and \<open>False\<close> for "update".
\<close>

definition send_captcha_gif ::
  "MyBot \<Rightarrow> env \<Rightarrow> Update \<Rightarrow> int \<Rightarrow> bot_text \<Rightarrow> bool \<Rightarrow> bot_state \<Rightarrow> (exc + unit) \<times> bot_state" where
  "send_captcha_gif self ev upd userid caption mode s =
     (case (message upd, effective_chat upd) of
        (Some m, Some chat) \<Rightarrow>
          (case call_gateway ev (ReplyText (chat_id chat) (message_id m) PleaseWait) s of
             (Inl e, s1) \<Rightarrow> (Inl e, s1)
           | (Inr wait_msg, s1) \<Rightarrow>
               (let s2 = s1\<lparr>cache := set_flag (set_flag (cache s1) userid ''verify'' (PBool False))
                                        userid ''verify_attempts'' (PInt 0)\<rparr>
                in case captcha_text (draws ev) of
                     Inl e \<Rightarrow> (Inl e, s2)
                   | Inr cd \<Rightarrow>
                       (case (if mode then insert_verify (uf_repo s2) userid cd (ttl self) (wall_clock ev)
                              else update_verify_code (uf_repo s2) userid cd (ttl self) (wall_clock ev)) of
                          Inl e \<Rightarrow> (Inl e, s2)
                        | Inr db \<Rightarrow>
                            (case call_gateway ev (DeleteMessage (chat_id chat) wait_msg)
                                    (s2\<lparr>uf_repo := db\<rparr>) of
                               (Inl e, s3) \<Rightarrow> (Inl e, s3)
                             | (Inr d, s3) \<Rightarrow>
                                 (case call_gateway ev (ReplyAnimation (chat_id chat) (message_id m) cd caption) s3 of
                                    (Inl e, s4) \<Rightarrow> (Inl e, s4)
                                  | (Inr a, s4) \<Rightarrow> (Inr (), s4))))))
      | _ \<Rightarrow> (Inr (), s))"

definition gif_verify :: "MyBot \<Rightarrow> env \<Rightarrow> Update \<Rightarrow> bool \<Rightarrow> bot_state \<Rightarrow> (exc + bool) \<times> bot_state" where
  "gif_verify self ev upd first s =
     (case (message upd, effective_user upd) of
        (Some m, Some usr) \<Rightarrow>
          (let verify_msg = (if first then CaptchaFirst else CaptchaPrompt);
               user_id = tg_id usr;
               (lck, c0) = get_user_lock (cache s) user_id;
               s0 = s\<lparr>cache := c0\<rparr>
           in case select_valid_verify (uf_repo s0) user_id of
                Inl e \<Rightarrow> (Inl e, s0)
              | Inr None \<Rightarrow>
                  (case send_captcha_gif self ev upd user_id verify_msg True s0 of
                     (Inl e, s1) \<Rightarrow> (Inl e, s1)
                   | (Inr u, s1) \<Rightarrow> (Inr False, s1))
              | Inr (Some verify) \<Rightarrow>
                  if verified verify then (Inr True, s0)
                  else if expires_at verify < wall_clock ev then
                    (case send_captcha_gif self ev upd user_id CaptchaExpired False s0 of
                       (Inl e, s1) \<Rightarrow> (Inl e, s1)
                     | (Inr u, s1) \<Rightarrow> (Inr False, s1))
                  else (Inr True, s0))
      | _ \<Rightarrow> (Inr False, s))"

definition verify_attempts :: "MyBot \<Rightarrow> env \<Rightarrow> Update \<Rightarrow> string \<Rightarrow> bot_state \<Rightarrow> (exc + unit) \<times> bot_state" where
  "verify_attempts self ev upd txt s =
     (case (message upd, effective_user upd) of
        (Some m, Some usr) \<Rightarrow>
          (let user_id = tg_id usr;
               chat = (case effective_chat upd of None \<Rightarrow> user_id | Some ch \<Rightarrow> chat_id ch)
           in case select_valid_verify (uf_repo s) user_id of
                Inl e \<Rightarrow> (Inl e, s)
              | Inr None \<Rightarrow> (Inr (), s)
              | Inr (Some verify) \<Rightarrow>
                  if verified verify then (Inr (), s)
                  else
                    (let (lck, c0) = get_user_lock (cache s) user_id;
                         (attempts_flag, c1) = get_flag c0 user_id ''verify_attempts'' (PInt 0);
                         s1 = s\<lparr>cache := c1\<rparr>
                     in if py_upper txt = code verify then
                          (case update_verified (uf_repo s1) user_id True of
                             Inl e \<Rightarrow> (Inl e, s1)
                           | Inr db \<Rightarrow>
                               (let s2 = s1\<lparr>uf_repo := db,
                                            cache := set_flag (set_flag (cache s1) user_id ''verify'' (PBool True))
                                                       user_id ''verify_attempts'' (PInt 0)\<rparr>
                                in case call_gateway ev (ReplyText chat (message_id m) VerificationPassed) s2 of
                                     (Inl e, s3) \<Rightarrow> (Inl e, s3)
                                   | (Inr sent_id, s3) \<Rightarrow> create_topic self ev upd s3))
                        else
                          (case int_of_pyval attempts_flag of
                             Inl e \<Rightarrow> (Inl e, s1)
                           | Inr attempts0 \<Rightarrow>
                               (let attempts = attempts0 + 1;
                                    s2 = s1\<lparr>cache := set_flag (cache s1) user_id ''verify_attempts'' (PInt attempts)\<rparr>;
                                    remaining = 3 - attempts
                                in if remaining > 0 then
                                     (case call_gateway ev (ReplyText chat (message_id m)
                                                              (WrongCodeRemaining remaining)) s2 of
                                        (Inl e, s3) \<Rightarrow> (Inl e, s3)
                                      | (Inr sent_id, s3) \<Rightarrow> (Inr (), s3))
                                   else
                                     (case call_gateway ev (ReplyText chat (message_id m) TooManyWrongCodes) s2 of
                                        (Inl e, s3) \<Rightarrow> (Inl e, s3)
                                      | (Inr sent_id, s3) \<Rightarrow>
                                          (let s4 = s3\<lparr>cache := set_flag (cache s3) user_id ''verify'' (PBool False)\<rparr>
                                           in case insert_block (uf_repo s4) user_id None of
                                                Inl e \<Rightarrow> (Inl e, s4)
                                              | Inr db \<Rightarrow>
                                                  (Inr (), s4\<lparr>uf_repo := db,
                                                             cache := set_flag (cache s4) user_id ''block'' (PBool True)\<rparr>)))))))
      | _ \<Rightarrow> (Inr (), s))"

definition handle_private_message :: "MyBot \<Rightarrow> env \<Rightarrow> Update \<Rightarrow> bot_state \<Rightarrow> (exc + unit) \<times> bot_state" where
  "handle_private_message self ev upd s =
     (case (message upd, effective_user upd) of
        (Some m, Some usr) \<Rightarrow>
          (let user_id = tg_id usr;
               chat = (case effective_chat upd of None \<Rightarrow> user_id | Some ch \<Rightarrow> chat_id ch);
               (blocked, c0) = get_flag (cache s) user_id ''block'' PNone;
               s0 = s\<lparr>cache := c0\<rparr>
           in if truthy blocked then
                (case call_gateway ev (ReplyText chat (message_id m) YouAreBanned) s0 of
                   (Inl e, s1) \<Rightarrow> (Inl e, s1)
                 | (Inr sent_id, s1) \<Rightarrow> (Inr (), s1))
              else
                (let (verified_flag, c1) = get_flag (cache s0) user_id ''verify'' PNone;
                     s1 = s0\<lparr>cache := c1\<rparr>
                 in case (if verified_flag = PNone then
                            (case select_verified (uf_repo s1) user_id of
                               Inl e \<Rightarrow> Inl e
                             | Inr b \<Rightarrow> Inr (PBool b, s1\<lparr>cache := set_flag (cache s1) user_id ''verify'' (PBool b)\<rparr>))
                          else Inr (verified_flag, s1)) of
                      Inl e \<Rightarrow> (Inl e, s1)
                    | Inr (vflag, s2) \<Rightarrow>
                        if truthy vflag then msg_to_topic self ev upd s2
                        else
                          (let txt = py_strip (case msg_text m of None \<Rightarrow> [] | Some t \<Rightarrow> t)
                           in case gif_verify self ev upd False s2 of
                                (Inl e, s3) \<Rightarrow> (Inl e, s3)
                              | (Inr ok, s3) \<Rightarrow>
                                  if \<not> ok then (Inr (), s3)
                                  else verify_attempts self ev upd txt s3)))
      | _ \<Rightarrow> (Inr (), s))"

text \<open>
  \<open>MyBot._delete\<close>, the handler of the command \<^verbatim>\<open>/d\<close>. The two gateway deletions come first,
  the deletion of the mapping row last.
\<close>

definition delete_cmd :: "MyBot \<Rightarrow> env \<Rightarrow> Update \<Rightarrow> bot_state \<Rightarrow> (exc + unit) \<times> bot_state" where
  "delete_cmd self ev upd s =
     (case (message upd, effective_user upd, effective_chat upd) of
        (Some m, Some usr, Some chat) \<Rightarrow>
          if reply_to_message m = None \<or> reply_to_message m = message_thread_id m then
            (case call_gateway ev (ReplyText (chat_id chat) (message_id m) ReplyToAMessage) s of
               (Inl e, s1) \<Rightarrow> (Inl e, s1)
             | (Inr sent_id, s1) \<Rightarrow> (Inr (), s1))
          else
            (let userid = tg_id usr;
                 msg_id = (case reply_to_message m of None \<Rightarrow> 0 | Some i \<Rightarrow> i)
             in case (if chat_type chat = Private
                      then Some (select_message (uf_repo s) msg_id False (Some userid))
                      else if is_forum chat
                      then Some (select_message (uf_repo s) msg_id True None)
                      else None) of
                  None \<Rightarrow>
                    (case call_gateway ev (ReplyText (chat_id chat) (message_id m) InvalidMessageObject) s of
                       (Inl e, s1) \<Rightarrow> (Inl e, s1)
                     | (Inr sent_id, s1) \<Rightarrow> (Inr (), s1))
                | Some (Inl e) \<Rightarrow> (Inl e, s)
                | Some (Inr None) \<Rightarrow>
                    (case call_gateway ev (ReplyText (chat_id chat) (message_id m) NoLongerDeletable) s of
                       (Inl e, s1) \<Rightarrow> (Inl e, s1)
                     | (Inr sent_id, s1) \<Rightarrow> (Inr (), s1))
                | Some (Inr (Some msg)) \<Rightarrow>
                    (case call_gateway ev (DeleteMessage (m_userid msg) (private_message_id msg)) s of
                       (Inl e, s1) \<Rightarrow> (Inl e, s1)
                     | (Inr d1, s1) \<Rightarrow>
                         (case call_gateway ev (DeleteMessage (topic_chat_id self) (topic_message_id msg)) s1 of
                            (Inl e, s2) \<Rightarrow> (Inl e, s2)
                          | (Inr d2, s2) \<Rightarrow> (Inr (), s2\<lparr>uf_repo := delete_message (uf_repo s2) msg\<rparr>))))
      | _ \<Rightarrow> (Inr (), s))"

text \<open>A run of the private-message handler over a list of updates, each in its own environment.\<close>

fun handle_private_messages :: "MyBot \<Rightarrow> (env \<times> Update) list \<Rightarrow> bot_state \<Rightarrow> bot_state" where
  "handle_private_messages self [] s = s"
| "handle_private_messages self ((ev, upd) # rest) s =
     handle_private_messages self rest (snd (handle_private_message self ev upd s))"

fun msgs_to_topic :: "MyBot \<Rightarrow> (env \<times> Update) list \<Rightarrow> bot_state \<Rightarrow> bot_state" where
  "msgs_to_topic self [] s = s"
| "msgs_to_topic self ((ev, upd) # rest) s =
     msgs_to_topic self rest (snd (msg_to_topic self ev upd s))"

subsection \<open>Notions used in the statements\<close>

text \<open>The value the cache holds for a flag of a user, if any.\<close>

definition flag_of :: "DataCache \<Rightarrow> user_id \<Rightarrow> string \<Rightarrow> pyval option" where
  "flag_of c uid key = (case user_data c uid of None \<Rightarrow> None | Some d \<Rightarrow> d key)"

text \<open>The requests answered between two states: what \<open>sent\<close> has gained.\<close>

definition new_requests :: "bot_state \<Rightarrow> bot_state \<Rightarrow> request list" where
  "new_requests s s' = drop (length (sent s)) (sent s')"

text \<open>
  A step from \<open>s\<close> to \<open>s'\<close> is quiet for the requests \<open>P\<close> when it only adds requests that
  satisfy \<open>P\<close> to \<open>sent\<close> and leaves alone the flood queues, the lock registry, the block
  records, the verification records, the message mappings and the cached flags \<open>block\<close>,
  \<open>verify\<close> and \<open>verify_attempts\<close>. It may change the cached \<open>to_topic\<close> flag and the table
  of users.
\<close>

definition quiet :: "(request \<Rightarrow> bool) \<Rightarrow> bot_state \<Rightarrow> bot_state \<Rightarrow> bool" where
  "quiet P s s' \<longleftrightarrow>
     (\<exists>new. sent s' = sent s @ new \<and> list_all P new) \<and>
     user_message_time_queues (cache s') = user_message_time_queues (cache s) \<and>
     user_locks (cache s') = user_locks (cache s) \<and>
     lock_counter (cache s') = lock_counter (cache s) \<and>
     block_users (uf_repo s') = block_users (uf_repo s) \<and>
     verify_users (uf_repo s') = verify_users (uf_repo s) \<and>
     messages (uf_repo s') = messages (uf_repo s) \<and>
     (\<forall>u. flag_of (cache s') u ''block'' = flag_of (cache s) u ''block'') \<and>
     (\<forall>u. flag_of (cache s') u ''verify'' = flag_of (cache s) u ''verify'') \<and>
     (\<forall>u. flag_of (cache s') u ''verify_attempts'' = flag_of (cache s) u ''verify_attempts'')"

text \<open>The gateway answers every request of the run.\<close>

definition gateway_answers :: "env \<Rightarrow> bool" where
  "gateway_answers ev \<longleftrightarrow> (\<forall>rq. \<exists>r. gateway ev rq = Returned r)"

text \<open>The requests that relay a message into the group: a forward or a copy.\<close>

fun is_relay :: "request \<Rightarrow> bool" where
  "is_relay (ForwardMessage c t f m) = True"
| "is_relay (CopyMessage c t f m) = True"
| "is_relay rq = False"

text \<open>The two replies of the flood control.\<close>

fun is_flood_reply :: "request \<Rightarrow> bool" where
  "is_flood_reply (ReplyText c m t) = (t = BannedForFlooding \<or> t = FloodWarning)"
| "is_flood_reply rq = False"

text \<open>The state \<open>s\<close> with the table of message mappings replaced.\<close>

definition with_messages :: "bot_state \<Rightarrow> Messages list \<Rightarrow> bot_state" where
  "with_messages s ms = s\<lparr>uf_repo := (uf_repo s)\<lparr>messages := ms\<rparr>\<rparr>"

text \<open>
  The private-to-group relay over a list of updates, each in its own environment: the requests
  answered while each update was handled, and the state after the last one.
\<close>

fun relay_log :: "MyBot \<Rightarrow> (env \<times> Update) list \<Rightarrow> bot_state \<Rightarrow> request list list \<times> bot_state" where
  "relay_log self [] s = ([], s)"
| "relay_log self ((ev, upd) # rest) s =
     (let s1 = snd (msg_to_topic self ev upd s);
          (logs, s2) = relay_log self rest s1
      in (new_requests s s1 # logs, s2))"

text \<open>An update of the private chat of user \<open>uid\<close>: it has a message, that user and a chat.\<close>

definition update_of :: "user_id \<Rightarrow> Update \<Rightarrow> bool" where
  "update_of uid upd \<longleftrightarrow>
     message upd \<noteq> None \<and> effective_chat upd \<noteq> None \<and>
     (case effective_user upd of None \<Rightarrow> False | Some usr \<Rightarrow> tg_id usr = uid)"

subsection \<open>An example configuration\<close>

text \<open>
  A bot without classifier credentials (the keyword fallback decides), user 7 in their private
  chat, and a state in which user 7 has the cached topic 5. \<open>example_env gw t\<close> is an
  environment with the gateway \<open>gw\<close> and the monotonic clock at \<open>t\<close>.
\<close>

definition example_bot :: MyBot where
  "example_bot = \<lparr>topic_chat_id = - 1001, admin_user_id = 99, ttl = 30, spam_topic_id = 2,
                   spamd = \<lparr>base_url = [], model = [], token = []\<rparr>,
                   prohibited_words = [''money'']\<rparr>"

definition example_user :: TgUser where
  "example_user = \<lparr>tg_id = 7, tg_first_name = ''Ann'', tg_last_name = None, tg_username = None,
                    tg_language_code = None, tg_is_premium = None\<rparr>"

definition example_chat :: TgChat where
  "example_chat = \<lparr>chat_id = 7, chat_type = Private, is_forum = False\<rparr>"

definition example_update :: "int \<Rightarrow> string option \<Rightarrow> int option \<Rightarrow> Update" where
  "example_update mid txt reply =
     \<lparr>message = Some \<lparr>message_id = mid, msg_text = txt, message_thread_id = None,
                       reply_to_message = reply\<rparr>,
      effective_user = Some example_user, effective_chat = Some example_chat\<rparr>"

definition example_env :: "(request \<Rightarrow> int outcome) \<Rightarrow> real \<Rightarrow> env" where
  "example_env gw t =
     \<lparr>gateway = gw,
      classifier = \<lparr>detect_of_openai = (\<lambda>txt. Raised OpenAIError),
                    model_validate_json = (\<lambda>a. Raised ValidationError)\<rparr>,
      monotonic = t, wall_clock = 0, draws = (\<lambda>i. i)\<rparr>"

definition example_state :: bot_state where
  "example_state = \<lparr>cache = set_flag new_cache 7 ''to_topic'' (PInt 5), uf_repo = empty_repo, sent = []\<rparr>"

text \<open>A gateway that answers every request with the id 1, and one that times out on a copy.\<close>

definition gateway_ok :: "request \<Rightarrow> int outcome" where
  "gateway_ok rq = Returned 1"


text \<open>
  A mapping row of user 7 (private message 40, thread message 400), the example state with
  that row stored, and a gateway that fails to delete in the group.
\<close>

definition example_row :: Messages where
  "example_row = \<lparr>m_id = 1, m_userid = 7, private_message_id = 40, topic_message_id = 400,
                   m_spam = False, m_reason = NoTextMessage, m_time = 0\<rparr>"

definition example_state_mapped :: bot_state where
  "example_state_mapped = example_state\<lparr>uf_repo := empty_repo\<lparr>messages := [example_row]\<rparr>\<rparr>"

fun gateway_group_delete_fails :: "request \<Rightarrow> int outcome" where
  "gateway_group_delete_fails (DeleteMessage c m) = (if c = - 1001 then Raised TelegramError else Returned 1)"
| "gateway_group_delete_fails rq = Returned 1"

text \<open>The example state after ten messages of user 7 at the clock reading 1.\<close>

definition example_state_flooded :: bot_state where
  "example_state_flooded =
     example_state\<lparr>cache := (cache example_state)\<lparr>user_message_time_queues := [7 \<mapsto> replicate 10 1]\<rparr>\<rparr>"

subsection \<open>Notions used for the verification attempts\<close>







section \<open>Properties\<close>

subsection \<open>The flood window\<close>

text \<open>
  The eviction loop drops the longest prefix of timestamps that are older than the window. The
  readings of a monotonic clock never decrease, so a queue is sorted, and on a sorted queue
  dropping that prefix keeps exactly the timestamps within the window.
\<close>

lemma evict_dropWhile: "evict now W q = dropWhile (\<lambda>t. now - t > W) q"
  by (induction q) auto

lemma dropWhile_sorted_filter:
  "sorted q \<Longrightarrow> dropWhile (\<lambda>t. now - t > W) q = filter (\<lambda>t. now - t \<le> (W::real)) q"
proof (induction q)
  case Nil
  then show ?case by simp
next
  case (Cons a q)
  show ?case
  proof (cases "now - a > W")
    case True
    with Cons show ?thesis by simp
  next
    case False
    then have "\<forall>t \<in> set q. now - t \<le> W" using Cons.prems by auto
    then have "filter (\<lambda>t. now - t \<le> W) q = q" by (simp add: filter_id_conv)
    with False show ?thesis by simp
  qed
qed

lemma flood_message_shape:
  assumes "0 < W"
  shows "flood_message c uid W now =
     (let q = evict now W (queue_of c uid @ [now])
      in (length q, c\<lparr>user_message_time_queues :=
            (if q = [] then (user_message_time_queues c)(uid := None)
             else (user_message_time_queues c)(uid \<mapsto> q))\<rparr>))"
  using assms
  by (auto simp: flood_message_def get_user_message_time_queue_def queue_of_def Let_def
      split: option.splits)

lemma evict_append_now_nonempty: "0 < W \<Longrightarrow> evict now W (q @ [now]) \<noteq> []"
  by (induction q) auto

lemma flood_message_queue:
  assumes "0 < W"
  shows "queue_of (snd (flood_message c uid W now)) uid = evict now W (queue_of c uid @ [now])"
  using assms evict_append_now_nonempty[OF assms, of now "queue_of c uid"]
  by (simp add: flood_message_shape Let_def queue_of_def)

lemma flood_message_count:
  assumes "0 < W"
  shows "fst (flood_message c uid W now) = length (evict now W (queue_of c uid @ [now]))"
  using assms by (simp add: flood_message_shape Let_def)

lemma flood_calls_Cons:
  "flood_calls c uid W (t # ts) =
     (fst (flood_message c uid W t) # fst (flood_calls (snd (flood_message c uid W t)) uid W ts),
      snd (flood_calls (snd (flood_message c uid W t)) uid W ts))"
  by (simp split: prod.splits)

lemma flood_calls_length: "length (fst (flood_calls c uid W ts)) = length ts"
  by (induction ts arbitrary: c) (simp_all add: flood_calls_Cons del: flood_calls.simps(2))

lemma filter_filter_window:
  assumes "(t::real) \<le> t'"
  shows "filter (\<lambda>x. t' - x \<le> W) (filter (\<lambda>x. t - x \<le> W) xs) = filter (\<lambda>x. t' - x \<le> W) xs"
proof -
  have "\<And>x. (t - x \<le> W \<and> t' - x \<le> W) = (t' - x \<le> W)" using assms by auto
  then show ?thesis by simp
qed

lemma flood_calls_nth:
  assumes "0 < W" and "sorted (queue_of c uid @ ts)" and "k < length ts"
  shows "fst (flood_calls c uid W ts) ! k =
           length (filter (\<lambda>t. ts ! k - t \<le> W) (queue_of c uid @ take (Suc k) ts))"
  using assms(2,3)
proof (induction ts arbitrary: c k)
  case Nil
  then show ?case by simp
next
  case (Cons t ts)
  let ?c1 = "snd (flood_message c uid W t)"
  have srt: "sorted (queue_of c uid @ [t])" using Cons.prems(1) by (simp add: sorted_append)
  have q1: "queue_of ?c1 uid = filter (\<lambda>x. t - x \<le> W) (queue_of c uid @ [t])"
    using srt by (simp add: flood_message_queue[OF assms(1)] evict_dropWhile dropWhile_sorted_filter del: filter_append)
  show ?case
  proof (cases k)
    case 0
    have "fst (flood_calls c uid W (t # ts)) ! 0 = fst (flood_message c uid W t)"
      by (simp add: flood_calls_Cons del: flood_calls.simps(2))
    also have "\<dots> = length (filter (\<lambda>x. t - x \<le> W) (queue_of c uid @ [t]))"
      using srt by (simp add: flood_message_count[OF assms(1)] evict_dropWhile dropWhile_sorted_filter del: filter_append)
    finally show ?thesis using 0 by simp
  next
    case (Suc j)
    have jlt: "j < length ts" using Cons.prems(2) Suc by simp
    have le: "t \<le> ts ! j" using Cons.prems(1) jlt by (auto simp: sorted_append)
    have "sorted (filter (\<lambda>x. t - x \<le> W) (queue_of c uid @ [t]) @ ts)"
      using Cons.prems(1) by (auto simp: sorted_append sorted_wrt_filter)
    then have srt1: "sorted (queue_of ?c1 uid @ ts)" using q1 by simp
    have "fst (flood_calls c uid W (t # ts)) ! Suc j = fst (flood_calls ?c1 uid W ts) ! j"
      by (simp add: flood_calls_Cons del: flood_calls.simps(2))
    also have "\<dots> = length (filter (\<lambda>x. ts ! j - x \<le> W) (queue_of ?c1 uid @ take (Suc j) ts))"
      by (rule Cons.IH[OF srt1 jlt])
    also have "\<dots> = length (filter (\<lambda>x. ts ! j - x \<le> W) ((queue_of c uid @ [t]) @ take (Suc j) ts))"
      unfolding q1 filter_append[of _ "filter _ _"] filter_filter_window[OF le] by simp
    finally show ?thesis using Suc by simp
  qed
qed

lemma flood_message_removed_entry:
  assumes "0 < W"
  shows "flood_message (c\<lparr>user_message_time_queues := (user_message_time_queues c)(uid := None)\<rparr>) uid W now
       = flood_message (c\<lparr>user_message_time_queues := (user_message_time_queues c)(uid \<mapsto> [])\<rparr>) uid W now"
  using assms by (simp add: flood_message_shape Let_def queue_of_def)

lemma flood_calls_removed_entry:
  assumes "0 < W"
  shows "fst (flood_calls (c\<lparr>user_message_time_queues := (user_message_time_queues c)(uid := None)\<rparr>) uid W ts)
       = fst (flood_calls (c\<lparr>user_message_time_queues := (user_message_time_queues c)(uid \<mapsto> [])\<rparr>) uid W ts)"
proof (cases ts)
  case Nil
  then show ?thesis by simp
next
  case (Cons t ts')
  show ?thesis unfolding Cons flood_calls_Cons flood_message_removed_entry[OF assms] ..
qed

text \<open>
  Claim C4. For a window \<open>W > 0\<close>, a call of the flood recorder appends the clock reading
  \<open>now\<close> to the queue of the user, drops from the front every timestamp \<open>t\<close> with
  \<open>now - t > W\<close>, stores the queue (and removes the entry of the user if the queue is empty)
  and returns the length of the queue. In a sequence of calls at the non-decreasing readings
  \<open>ts\<close>, the \<open>k\<close>-th call returns the number of timestamps recorded so far (those the queue
  held before, and \<open>ts ! 0\<close> to \<open>ts ! k\<close>) that lie within \<open>W\<close> of \<open>ts ! k\<close>. A user whose
  entry was removed gets the same results from every later call as a user with an empty queue.
\<close>

theorem flood_message_sliding_window:
  assumes "0 < W"
  shows "(let q = dropWhile (\<lambda>t. now - t > W) (queue_of c uid @ [now])
          in flood_message c uid W now =
               (length q,
                c\<lparr>user_message_time_queues :=
                    (if q = [] then (user_message_time_queues c)(uid := None)
                     else (user_message_time_queues c)(uid \<mapsto> q))\<rparr>))
       \<and> length (fst (flood_calls c uid W ts)) = length ts
       \<and> (sorted (queue_of c uid @ ts) \<longrightarrow>
            (\<forall>k < length ts.
               fst (flood_calls c uid W ts) ! k =
                 length (filter (\<lambda>t. ts ! k - t \<le> W) (queue_of c uid @ take (Suc k) ts))))
       \<and> fst (flood_calls (c\<lparr>user_message_time_queues := (user_message_time_queues c)(uid := None)\<rparr>) uid W ts)
           = fst (flood_calls (c\<lparr>user_message_time_queues := (user_message_time_queues c)(uid \<mapsto> [])\<rparr>) uid W ts)"
proof -
  have a: "(let q = dropWhile (\<lambda>t. now - t > W) (queue_of c uid @ [now])
          in flood_message c uid W now =
               (length q,
                c\<lparr>user_message_time_queues :=
                    (if q = [] then (user_message_time_queues c)(uid := None)
                     else (user_message_time_queues c)(uid \<mapsto> q))\<rparr>))"
    using flood_message_shape[OF assms, of c uid now] by (simp add: evict_dropWhile Let_def)
  show ?thesis
    using a flood_calls_length flood_calls_nth[OF assms] flood_calls_removed_entry[OF assms]
    by blast
qed

text \<open>Three calls at the readings 0, 1 and 5 with a window of 4 seconds return 1, 2 and 2.\<close>

theorem flood_message_sliding_window_witness:
  "(0::real) < 4 \<and> sorted (queue_of new_cache 1 @ [0, 1, 5]) \<and>
   fst (flood_calls new_cache 1 4 [0, 1, 5]) = [1, 2, 2] \<and>
   fst (flood_calls new_cache 1 4 [0, 1, 5]) ! 2 =
     length (filter (\<lambda>t. [0, 1, 5] ! 2 - t \<le> (4::real)) (queue_of new_cache 1 @ take (Suc 2) [0, 1, 5]))"
  using flood_message_sliding_window [of 4 0 new_cache 1 "[0, 1, 5]"]
  by (simp add: queue_of_def new_cache_def flood_message_def get_user_message_time_queue_def Let_def)


subsection \<open>The lock registry\<close>

lemma get_user_lock_fst:
  "fst (get_user_lock c uid) = (case user_locks c uid of None \<Rightarrow> lock_counter c | Some l \<Rightarrow> l)"
  by (simp add: get_user_lock_def setdefault_def Let_def split: option.splits)

lemma get_user_lock_snd:
  "snd (get_user_lock c uid) =
     (case user_locks c uid of
        None \<Rightarrow> c\<lparr>user_locks := (user_locks c)(uid \<mapsto> lock_counter c), lock_counter := Suc (lock_counter c)\<rparr>
      | Some l \<Rightarrow> c)"
  by (simp add: get_user_lock_def setdefault_def Let_def split: option.splits)

lemma get_user_lock_registered:
  "user_locks (snd (get_user_lock c uid)) uid = Some (fst (get_user_lock c uid))"
  by (simp add: get_user_lock_fst get_user_lock_snd split: option.splits)

lemma user_locks_get_flag [simp]: "user_locks (snd (get_flag c u k d)) = user_locks c"
  by (simp add: get_flag_def get_user_data_dict_def split: option.splits)
lemma user_locks_set_flag [simp]: "user_locks (set_flag c u k v) = user_locks c"
  by (simp add: set_flag_def get_user_data_dict_def split: option.splits)
lemma user_locks_get_topic [simp]: "user_locks (snd (get_topic c u k d)) = user_locks c"
  by (simp add: get_topic_def get_topic_data_dict_def split: option.splits)
lemma user_locks_set_topic [simp]: "user_locks (set_topic c u k v) = user_locks c"
  by (simp add: set_topic_def get_topic_data_dict_def split: option.splits)
lemma user_locks_flood_message [simp]: "user_locks (snd (flood_message c u w t)) = user_locks c"
  by (simp add: flood_message_def get_user_message_time_queue_def Let_def split: option.splits)
lemma lock_counter_get_flag [simp]: "lock_counter (snd (get_flag c u k d)) = lock_counter c"
  by (simp add: get_flag_def get_user_data_dict_def split: option.splits)
lemma lock_counter_set_flag [simp]: "lock_counter (set_flag c u k v) = lock_counter c"
  by (simp add: set_flag_def get_user_data_dict_def split: option.splits)
lemma lock_counter_get_topic [simp]: "lock_counter (snd (get_topic c u k d)) = lock_counter c"
  by (simp add: get_topic_def get_topic_data_dict_def split: option.splits)
lemma lock_counter_set_topic [simp]: "lock_counter (set_topic c u k v) = lock_counter c"
  by (simp add: set_topic_def get_topic_data_dict_def split: option.splits)
lemma lock_counter_flood_message [simp]: "lock_counter (snd (flood_message c u w t)) = lock_counter c"
  by (simp add: flood_message_def get_user_message_time_queue_def Let_def split: option.splits)

lemma apply_cache_op_keeps_lock:
  assumes "user_locks c uid = Some l" and "op \<noteq> ClearUserAll"
  shows "user_locks (apply_cache_op c op) uid = Some l"
  using assms
  by (cases op) (auto simp: get_user_lock_snd clear_topic_all_def split: option.splits)

lemma run_cache_ops_keeps_lock:
  assumes "user_locks c uid = Some l" and "ClearUserAll \<notin> set ops"
  shows "user_locks (run_cache_ops c ops) uid = Some l"
  using assms unfolding run_cache_ops_def
proof (induction ops arbitrary: c)
  case Nil
  then show ?case by simp
next
  case (Cons op ops)
  have "user_locks (apply_cache_op c op) uid = Some l"
    using Cons.prems by (intro apply_cache_op_keeps_lock) auto
  then show ?case using Cons by simp
qed

lemma locks_wf_new_cache: "locks_wf new_cache"
  by (simp add: locks_wf_def new_cache_def)

lemma locks_wf_apply: "locks_wf c \<Longrightarrow> locks_wf (apply_cache_op c op)"
proof (cases op)
  case (GetUserLock uid)
  assume "locks_wf c"
  then show ?thesis unfolding GetUserLock locks_wf_def
    by (cases "user_locks c uid") (auto simp: get_user_lock_snd less_Suc_eq split: if_splits)
qed (auto simp: locks_wf_def clear_user_all_def clear_topic_all_def)

lemma locks_wf_run: "locks_wf c \<Longrightarrow> locks_wf (run_cache_ops c ops)"
  unfolding run_cache_ops_def
  by (induction ops arbitrary: c) (simp_all add: locks_wf_apply)

text \<open>
  Claim C9, as amended. Between two wholesale clears the registry returns one lock per user:
  the lock is created on the first access (its identity is the allocation counter of that
  moment, and it is registered at once), every later lookup for the user returns it, whatever
  other cache operations run in between, as long as none of them is \<open>clear_user_all\<close>, and
  another user never gets the same lock. \<open>clear_user_all\<close> empties the registry: the first
  lookup after it creates a new lock, different from the one handed out before.
\<close>

theorem get_user_lock_stable_between_clears:
  "(ClearUserAll \<notin> set ops \<longrightarrow>
      fst (get_user_lock (run_cache_ops (snd (get_user_lock c uid)) ops) uid) = fst (get_user_lock c uid))
   \<and> (user_locks c uid = None \<longrightarrow>
        fst (get_user_lock c uid) = lock_counter c \<and>
        user_locks (snd (get_user_lock c uid)) uid = Some (lock_counter c))
   \<and> user_locks (clear_user_all c) uid = None
   \<and> (locks_wf c \<longrightarrow>
        fst (get_user_lock (clear_user_all (run_cache_ops (snd (get_user_lock c uid)) ops)) uid)
          \<noteq> fst (get_user_lock c uid))
   \<and> (locks_wf c \<and> uid \<noteq> uid' \<longrightarrow>
        fst (get_user_lock (snd (get_user_lock c uid)) uid') \<noteq> fst (get_user_lock c uid))"
proof -
  let ?c1 = "snd (get_user_lock c uid)"
  let ?l = "fst (get_user_lock c uid)"
  have reg: "user_locks ?c1 uid = Some ?l" by (rule get_user_lock_registered)
  have a: "ClearUserAll \<notin> set ops \<Longrightarrow> fst (get_user_lock (run_cache_ops ?c1 ops) uid) = ?l"
    using run_cache_ops_keeps_lock[OF reg] by (simp add: get_user_lock_fst)
  have b: "user_locks c uid = None \<Longrightarrow> ?l = lock_counter c \<and> user_locks ?c1 uid = Some (lock_counter c)"
    by (simp add: get_user_lock_fst get_user_lock_snd)
  have c: "user_locks (clear_user_all c) uid = None" by (simp add: clear_user_all_def)
  have wf1: "locks_wf c \<Longrightarrow> locks_wf ?c1"
    using locks_wf_apply[of c "GetUserLock uid"] by simp
  have lt: "locks_wf c \<Longrightarrow> ?l < lock_counter ?c1"
    using wf1 reg unfolding locks_wf_def by blast
  have mono_op: "\<And>c op. lock_counter c \<le> lock_counter (apply_cache_op c op)"
    subgoal for c op
      by (cases op) (auto simp: get_user_lock_snd clear_user_all_def clear_topic_all_def split: option.splits)
    done
  have mono: "\<And>c. lock_counter c \<le> lock_counter (run_cache_ops c ops)"
    unfolding run_cache_ops_def
  proof (induction ops)
    case Nil
    show ?case by simp
  next
    case (Cons op ops)
    show ?case using Cons[of "apply_cache_op c op"] mono_op[of c op] by simp
  qed
  have d: "locks_wf c \<Longrightarrow> fst (get_user_lock (clear_user_all (run_cache_ops ?c1 ops)) uid) \<noteq> ?l"
    using lt mono[of ?c1] by (simp add: get_user_lock_fst clear_user_all_def)
  have e: "locks_wf c \<and> uid \<noteq> uid' \<Longrightarrow> fst (get_user_lock ?c1 uid') \<noteq> ?l"
  proof -
    assume h: "locks_wf c \<and> uid \<noteq> uid'"
    show ?thesis
    proof (cases "user_locks ?c1 uid'")
      case None
      then show ?thesis using lt h by (simp add: get_user_lock_fst)
    next
      case (Some l')
      then show ?thesis using wf1 h reg unfolding locks_wf_def
        by (auto simp: get_user_lock_fst)
    qed
  qed
  show ?thesis using a b c d e by blast
qed

text \<open>
  Claim C9 as stated fails: after the wholesale clear, the lookup for user 7 returns a lock
  that is not the lock user 7 had before.
\<close>

theorem get_user_lock_clear_counterexample:
  "fst (get_user_lock (run_cache_ops (snd (get_user_lock new_cache 7)) [ClearUserAll]) 7)
     \<noteq> fst (get_user_lock new_cache 7)"
  by (simp add: run_cache_ops_def get_user_lock_def setdefault_def clear_user_all_def new_cache_def)

text \<open>A run on the new cache: user 7 keeps lock 0 across four other operations, user 8 gets lock 1.\<close>

theorem get_user_lock_stable_between_clears_witness:
  "ClearUserAll \<notin> set [SetFlag 7 ''block'' (PBool True), GetUserLock 8, FloodMessage 7 4 1, ClearTopicAll]
   \<and> locks_wf new_cache \<and> (7::int) \<noteq> 8 \<and> user_locks new_cache 7 = None
   \<and> fst (get_user_lock (run_cache_ops (snd (get_user_lock new_cache 7))
         [SetFlag 7 ''block'' (PBool True), GetUserLock 8, FloodMessage 7 4 1, ClearTopicAll]) 7) = 0
   \<and> fst (get_user_lock new_cache 7) = 0
   \<and> fst (get_user_lock (snd (get_user_lock new_cache 7)) 8) = 1"
  using get_user_lock_stable_between_clears
    [of "[SetFlag 7 ''block'' (PBool True), GetUserLock 8, FloodMessage 7 4 1, ClearTopicAll]" new_cache 7 8]
    locks_wf_new_cache
  by (simp add: get_user_lock_fst get_user_lock_snd new_cache_def)


subsection \<open>The captcha code and its comparison\<close>













subsection \<open>The spam detector\<close>

lemma py_in_iff: "py_in w text \<longleftrightarrow> (\<exists>pre suf. text = pre @ w @ suf)"
proof (induction "text")
  case Nil
  show ?case by auto
next
  case (Cons ch cs)
  show ?case
  proof
    assume "py_in w (ch # cs)"
    then consider "prefix w (ch # cs)" | "py_in w cs" by auto
    then show "\<exists>pre suf. ch # cs = pre @ w @ suf"
    proof cases
      case 1
      then obtain suf where "ch # cs = w @ suf" by (auto simp: prefix_def)
      then have "ch # cs = [] @ w @ suf" by simp
      then show ?thesis by blast
    next
      case 2
      then obtain pre suf where "cs = pre @ w @ suf" using Cons by blast
      then have "ch # cs = (ch # pre) @ w @ suf" by simp
      then show ?thesis by blast
    qed
  next
    assume "\<exists>pre suf. ch # cs = pre @ w @ suf"
    then obtain pre suf where ps: "ch # cs = pre @ w @ suf" by blast
    show "py_in w (ch # cs)"
    proof (cases pre)
      case Nil
      then have "prefix w (ch # cs)" using ps by (simp add: prefix_def)
      then show ?thesis by simp
    next
      case (Cons p pre')
      then have "cs = pre' @ w @ suf" using ps by simp
      then have "py_in w cs" using Cons.IH by blast
      then show ?thesis by simp
    qed
  qed
qed

text \<open>
  Claim C6. The keyword fallback scans the prohibited words in list order for an exact
  (case-sensitive) occurrence in the text as a contiguous substring. The verdict is spam, with
  the reason "keyword triggered: w", for the first listed word \<open>w\<close> that occurs; it is not spam
  when no listed word occurs. The verdict is a function of the text and the list: two runs on
  the same text with the same list give the same result.
\<close>

theorem detect_of_words_first_match:
  "(py_in w text \<longleftrightarrow> (\<exists>pre suf. text = pre @ w @ suf))
   \<and> (\<forall>i. i < length word_list \<and> py_in (word_list ! i) text
            \<and> (\<forall>j. j < i \<longrightarrow> \<not> py_in (word_list ! j) text)
        \<longrightarrow> detect_of_words word_list text
              = \<lparr>spam = True, reason = KeywordTriggered (word_list ! i)\<rparr>)
   \<and> ((\<forall>i. i < length word_list \<longrightarrow> \<not> py_in (word_list ! i) text)
        \<longrightarrow> detect_of_words word_list text = \<lparr>spam = False, reason = NoKeywordTriggered\<rparr>)
   \<and> (spam (detect_of_words word_list text) \<longleftrightarrow> (\<exists>x \<in> set word_list. py_in x text))"
proof -
  have a: "detect_of_words word_list text
              = \<lparr>spam = True, reason = KeywordTriggered (word_list ! i)\<rparr>"
    if "i < length word_list" "py_in (word_list ! i) text"
       "\<forall>j. j < i \<longrightarrow> \<not> py_in (word_list ! j) text" for i
  proof -
    have "find (\<lambda>x. py_in x text) word_list = Some (word_list ! i)"
      unfolding find_Some_iff using that by blast
    then show ?thesis by (simp add: detect_of_words_def)
  qed
  have b: "detect_of_words word_list text = \<lparr>spam = False, reason = NoKeywordTriggered\<rparr>"
    if "\<forall>i. i < length word_list \<longrightarrow> \<not> py_in (word_list ! i) text"
  proof -
    have "find (\<lambda>x. py_in x text) word_list = None"
      unfolding find_None_iff using that by (auto simp: in_set_conv_nth)
    then show ?thesis by (simp add: detect_of_words_def)
  qed
  have c: "spam (detect_of_words word_list text) \<longleftrightarrow> (\<exists>x \<in> set word_list. py_in x text)"
  proof (cases "find (\<lambda>x. py_in x text) word_list")
    case None
    then have "\<not> (\<exists>x \<in> set word_list. py_in x text)" by (simp add: find_None_iff)
    moreover have "\<not> spam (detect_of_words word_list text)"
      using None by (simp add: detect_of_words_def)
    ultimately show ?thesis by blast
  next
    case (Some x)
    then have "\<exists>x \<in> set word_list. py_in x text" by (auto simp: find_Some_iff)
    moreover have "spam (detect_of_words word_list text)"
      using Some by (simp add: detect_of_words_def)
    ultimately show ?thesis by blast
  qed
  show ?thesis using py_in_iff a b c by blast
qed

text \<open>
  With the list lottery, money, free the text "free money wire now" is spam by the word
  money, the first listed word that occurs; with the list Money it is not spam.
\<close>

theorem detect_of_words_first_match_witness:
  "(1::nat) < length [''lottery'', ''money'', ''free'']
   \<and> py_in ([''lottery'', ''money'', ''free''] ! 1) ''free money wire now''
   \<and> \<not> py_in ([''lottery'', ''money'', ''free''] ! 0) ''free money wire now''
   \<and> detect_of_words [''lottery'', ''money'', ''free''] ''free money wire now''
       = \<lparr>spam = True, reason = KeywordTriggered ''money''\<rparr>
   \<and> \<not> py_in ([''Money''] ! 0) ''free money wire now''
   \<and> detect_of_words [''Money''] ''free money wire now'' = \<lparr>spam = False, reason = NoKeywordTriggered\<rparr>"
  using detect_of_words_first_match [of "''money''" "''free money wire now''" "[''lottery'', ''money'', ''free'']"]
    detect_of_words_first_match [of "''Money''" "''free money wire now''" "[''Money'']"]
  by (simp add: detect_of_words_def)

text \<open>
  Claim C3. \<open>check_spam\<close> raises \<open>e\<close> exactly when the detector is configured, the \<^verbatim>\<open>try\<close>
  block raised \<open>e\<close>, and \<open>e\<close> belongs to none of the three handled kinds: the timeout of the
  classifier call (\<open>asyncio.TimeoutError\<close>), an error reported by the classifier client
  (\<open>OpenAIError\<close>), an invalid answer (\<open>ValidationError\<close>, \<open>TypeError\<close>, \<open>ValueError\<close>). For the
  three handled kinds, and when the detector is not configured, it returns the verdict of the
  keyword fallback; when the detector is not configured the result does not depend on the
  classifier at all.
\<close>

theorem check_spam_propagates_iff:
  "(check_spam sd word_list env text = Inl e \<longleftrightarrow>
      \<not> (token sd = [] \<or> base_url sd = [] \<or> model sd = [])
      \<and> try_classify env text = Raised e
      \<and> e \<noteq> AsyncioTimeoutError \<and> e \<noteq> OpenAIError
      \<and> e \<noteq> ValidationError \<and> e \<noteq> TypeError \<and> e \<noteq> ValueError)
   \<and> ((token sd = [] \<or> base_url sd = [] \<or> model sd = []
        \<or> try_classify env text = Raised AsyncioTimeoutError
        \<or> try_classify env text = Raised OpenAIError
        \<or> try_classify env text = Raised ValidationError
        \<or> try_classify env text = Raised TypeError
        \<or> try_classify env text = Raised ValueError)
       \<longrightarrow> check_spam sd word_list env text
             = Inr (spam (detect_of_words word_list text), reason (detect_of_words word_list text)))
   \<and> (token sd = [] \<or> base_url sd = [] \<or> model sd = []
       \<longrightarrow> check_spam sd word_list env text = check_spam sd word_list env' text)"
  by (auto simp: check_spam_def Let_def split: outcome.splits)

text \<open>
  A configured detector: an IndexError of the classifier call is raised to the caller, a timeout
  gives the keyword verdict.
\<close>

theorem check_spam_propagates_iff_witness:
  "check_spam \<lparr>base_url = ''u'', model = ''m'', token = ''k''\<rparr> [''money'']
      \<lparr>detect_of_openai = (\<lambda>t. Raised IndexError), model_validate_json = (\<lambda>a. Raised ValidationError)\<rparr>
      ''free money'' = Inl IndexError
   \<and> try_classify
        \<lparr>detect_of_openai = (\<lambda>t. Raised AsyncioTimeoutError), model_validate_json = (\<lambda>a. Raised ValidationError)\<rparr>
        ''free money'' = Raised AsyncioTimeoutError
   \<and> check_spam \<lparr>base_url = ''u'', model = ''m'', token = ''k''\<rparr> [''money'']
        \<lparr>detect_of_openai = (\<lambda>t. Raised AsyncioTimeoutError), model_validate_json = (\<lambda>a. Raised ValidationError)\<rparr>
        ''free money'' = Inr (True, KeywordTriggered ''money'')"
proof -
  let ?sd = "\<lparr>base_url = ''u'', model = ''m'', token = ''k''\<rparr>"
  let ?envA = "\<lparr>detect_of_openai = (\<lambda>t. Raised IndexError), model_validate_json = (\<lambda>a. Raised ValidationError)\<rparr>"
  let ?envB = "\<lparr>detect_of_openai = (\<lambda>t. Raised AsyncioTimeoutError), model_validate_json = (\<lambda>a. Raised ValidationError)\<rparr>"
  have cfg: "\<not> (token ?sd = [] \<or> base_url ?sd = [] \<or> model ?sd = [])" by simp
  have tA: "try_classify ?envA ''free money'' = Raised IndexError" by (simp add: try_classify_def)
  have tB: "try_classify ?envB ''free money'' = Raised AsyncioTimeoutError" by (simp add: try_classify_def)
  have kw: "detect_of_words [''money''] ''free money'' = \<lparr>spam = True, reason = KeywordTriggered ''money''\<rparr>"
    by (simp add: detect_of_words_def)
  have a: "check_spam ?sd [''money''] ?envA ''free money'' = Inl IndexError"
    using check_spam_propagates_iff [of ?sd "[''money'']" ?envA "''free money''" IndexError ?envA] cfg tA
    by blast
  have b: "check_spam ?sd [''money''] ?envB ''free money''
             = Inr (spam (detect_of_words [''money''] ''free money''), reason (detect_of_words [''money''] ''free money''))"
    using check_spam_propagates_iff [of ?sd "[''money'']" ?envB "''free money''" IndexError ?envB] tB
    by blast
  show ?thesis using a b tB unfolding kw by simp
qed


subsection \<open>Recording a message mapping\<close>

text \<open>
  On a table that satisfies its unique constraints a query by a unique key has at most one
  row, so \<open>scalar_one_or_none\<close> returns and does not raise.
\<close>

lemma scalar_one_or_none_distinct:
  assumes "distinct (map f rows)"
  shows "scalar_one_or_none (filter (\<lambda>r. f r = k) rows) = Inr (find (\<lambda>r. f r = k) rows)"
  using assms
proof (induction rows)
  case Nil
  show ?case by (simp add: scalar_one_or_none_def)
next
  case (Cons a rows)
  show ?case
  proof (cases "f a = k")
    case True
    then have "filter (\<lambda>r. f r = k) rows = []" using Cons.prems by (force simp: filter_empty_conv image_iff)
    then show ?thesis using True by (simp add: scalar_one_or_none_def)
  next
    case False
    then show ?thesis using Cons by simp
  qed
qed

lemma filter_one_if_distinct:
  assumes "distinct (map f rows)" and "k \<in> f ` set rows"
  shows "length (filter (\<lambda>r. f r = k) rows) = 1"
  using assms
proof (induction rows)
  case Nil
  then show ?case by simp
next
  case (Cons a rows)
  show ?case
  proof (cases "f a = k")
    case True
    then have "filter (\<lambda>r. f r = k) rows = []" using Cons.prems by (force simp: filter_empty_conv image_iff)
    then show ?thesis using True by simp
  next
    case False
    then show ?thesis using Cons by auto
  qed
qed

lemma messages_conflict_iff:
  "messages_conflict rows e \<longleftrightarrow>
     filter (\<lambda>r. topic_message_id r = topic_message_id e) rows \<noteq> []
     \<or> filter (\<lambda>r. m_userid r = m_userid e \<and> private_message_id r = private_message_id e) rows \<noteq> []"
  by (auto simp: messages_conflict_def list_ex_iff filter_empty_conv)

lemma next_id_fresh: "i \<in> set ids \<Longrightarrow> i < next_id ids"
proof -
  have "\<And>a. i \<in> set ids \<Longrightarrow> i \<le> fold max ids a"
  proof (induction ids)
    case Nil
    then show ?case by simp
  next
    case (Cons x xs)
    have mono: "\<And>a. a \<le> fold max xs a"
    proof (induction xs)
      case Nil
      show ?case by simp
    next
      case (Cons y ys)
      show ?case using Cons[of "max y a"] by simp
    qed
    show ?case
    proof (cases "i = x")
      case True
      then show ?thesis using mono[of "max x a"] by simp
    next
      case False
      then show ?thesis using Cons by simp
    qed
  qed
  then show "i \<in> set ids \<Longrightarrow> i < next_id ids" unfolding next_id_def by fastforce
qed

lemma add_and_flush_messages_unique:
  assumes "messages_unique (messages db)"
  shows "messages_unique (messages (snd (add_and_flush_messages db e)))"
proof (cases "messages_conflict (messages db) e")
  case True
  then show ?thesis using assms by (simp add: add_and_flush_messages_def)
next
  case False
  have "next_id (map m_id (messages db)) \<notin> set (map m_id (messages db))"
    using next_id_fresh[of "next_id (map m_id (messages db))" "map m_id (messages db)"] by auto
  moreover have "topic_message_id e \<notin> topic_message_id ` set (messages db)"
    using False by (auto simp: messages_conflict_def list_ex_iff)
  moreover have "(m_userid e, private_message_id e) \<notin> (\<lambda>r. (m_userid r, private_message_id r)) ` set (messages db)"
    using False by (auto simp: messages_conflict_def list_ex_iff)
  ultimately show ?thesis using assms False
    by (simp add: add_and_flush_messages_def messages_unique_def)
qed

lemma insert_message_fresh:
  assumes "filter (\<lambda>r. topic_message_id r = t) (messages db) = []"
      and "filter (\<lambda>r. m_userid r = u \<and> private_message_id r = p) (messages db) = []"
  shows "insert_message db u p t sp rs now =
           Inr (db\<lparr>messages := messages db @
                  [\<lparr>m_id = next_id (map m_id (messages db)), m_userid = u, private_message_id = p,
                    topic_message_id = t, m_spam = sp, m_reason = rs, m_time = now\<rparr>]\<rparr>)"
  using assms
  by (simp add: insert_message_def insert_message_requery_def add_and_flush_messages_def
      messages_conflict_iff)

lemma scalar_pair:
  assumes "distinct (map (\<lambda>r. (m_userid r, private_message_id r)) rows)"
  shows "scalar_one_or_none (filter (\<lambda>r. m_userid r = u \<and> private_message_id r = p) rows)
       = Inr (find (\<lambda>r. m_userid r = u \<and> private_message_id r = p) rows)"
  using scalar_one_or_none_distinct[OF assms, of "(u, p)"] by simp

lemma find_SomeD: "find P xs = Some x \<Longrightarrow> P x \<and> x \<in> set xs"
  by (auto simp: find_Some_iff)

lemma requery_fatal_iff:
  assumes "messages_unique (messages db1)"
  shows "insert_message_requery ok db1 u p t = Inl (RuntimeError msg) \<longleftrightarrow>
           \<not> ok \<and> filter (\<lambda>r. topic_message_id r = t) (messages db1) = []
           \<and> filter (\<lambda>r. m_userid r = u \<and> private_message_id r = p) (messages db1) = []
           \<and> msg = ''insert_message failed but no existing row found''"
proof -
  have d1: "distinct (map topic_message_id (messages db1))"
   and d2: "distinct (map (\<lambda>r. (m_userid r, private_message_id r)) (messages db1))"
    using assms by (simp_all add: messages_unique_def)
  show ?thesis
    unfolding insert_message_requery_def scalar_one_or_none_distinct[OF d1] scalar_pair[OF d2]
    by (auto simp: find_None_iff filter_empty_conv split: option.splits dest: find_SomeD)
qed

lemma insert_message_conflict:
  assumes "messages_unique (messages db)"
      and "filter (\<lambda>r. topic_message_id r = t) (messages db) \<noteq> []
           \<or> filter (\<lambda>r. m_userid r = u \<and> private_message_id r = p) (messages db) \<noteq> []"
  shows "insert_message db u p t sp rs now = Inr db"
proof -
  have d1: "distinct (map topic_message_id (messages db))"
   and d2: "distinct (map (\<lambda>r. (m_userid r, private_message_id r)) (messages db))"
    using assms(1) by (simp_all add: messages_unique_def)
  have c: "messages_conflict (messages db)
             \<lparr>m_id = 0, m_userid = u, private_message_id = p,
              topic_message_id = t, m_spam = sp, m_reason = rs, m_time = now\<rparr>"
    using assms(2) by (simp add: messages_conflict_iff)
  have "insert_message db u p t sp rs now = insert_message_requery False db u p t"
    using c by (simp add: insert_message_def add_and_flush_messages_def)
  also have "\<dots> = Inr db"
    using assms(2)
    unfolding insert_message_requery_def scalar_one_or_none_distinct[OF d1] scalar_pair[OF d2]
    by (auto simp: find_None_iff filter_empty_conv split: option.splits)
  finally show ?thesis .
qed

lemma insert_message_never_fatal: "insert_message db u p t sp rs now \<noteq> Inl (RuntimeError msg)"
proof (cases "messages_conflict (messages db)
             \<lparr>m_id = 0, m_userid = u, private_message_id = p,
              topic_message_id = t, m_spam = sp, m_reason = rs, m_time = now\<rparr>")
  case False
  then show ?thesis
    by (simp add: insert_message_def add_and_flush_messages_def insert_message_requery_def)
next
  case True
  then have ne: "filter (\<lambda>r. topic_message_id r = t) (messages db) \<noteq> []
           \<or> filter (\<lambda>r. m_userid r = u \<and> private_message_id r = p) (messages db) \<noteq> []"
    by (simp add: messages_conflict_iff)
  have "insert_message db u p t sp rs now = insert_message_requery False db u p t"
    using True by (simp add: insert_message_def add_and_flush_messages_def)
  moreover have "insert_message_requery False db u p t \<noteq> Inl (RuntimeError msg)"
    using ne unfolding insert_message_requery_def scalar_one_or_none_def
    by (auto split: list.splits)
  ultimately show ?thesis by simp
qed

lemma insert_message_unique:
  assumes "messages_unique (messages db)" and "insert_message db u p t sp rs now = Inr db1"
  shows "messages_unique (messages db1)"
proof (cases "filter (\<lambda>r. topic_message_id r = t) (messages db) = []
           \<and> filter (\<lambda>r. m_userid r = u \<and> private_message_id r = p) (messages db) = []")
  case True
  let ?e = "\<lparr>m_id = 0, m_userid = u, private_message_id = p,
              topic_message_id = t, m_spam = sp, m_reason = rs, m_time = now\<rparr>"
  have "\<not> messages_conflict (messages db) ?e" using True by (simp add: messages_conflict_iff)
  then have "db1 = snd (add_and_flush_messages db ?e)"
    using assms(2) by (simp add: insert_message_def insert_message_requery_def add_and_flush_messages_def)
  then show ?thesis using add_and_flush_messages_unique[OF assms(1)] by simp
next
  case False
  then have "insert_message db u p t sp rs now = Inr db"
    using insert_message_conflict[OF assms(1)] by blast
  then show ?thesis using assms by simp
qed

text \<open>
  Claim C1. On a table that satisfies its unique constraints, for every
  \<open>(userid, private_msg_id, topic_msg_id, spam, reason)\<close>: if neither unique key of the new row
  is taken, \<open>insert_message\<close> stores the row; if one is taken, the insert fails on the
  conflict, the table is queried by \<open>topic_message_id\<close> and then by
  \<open>(userid, private_message_id)\<close>, one of the queries finds a row and the call returns with the
  table unchanged. The part of the function after the flush raises the RuntimeError exactly
  when the flush failed and neither query finds a row, and \<open>insert_message\<close> itself never
  raises it. Two insertions of the same triple both return normally, the second one changes
  nothing, and at most one row holds the triple; when neither key was taken before the first
  insertion, exactly one row holds the triple (and exactly one row each key), and the table
  has grown by that one row.
\<close>

theorem insert_message_idempotent:
  assumes "messages_unique (messages db)"
  shows "(filter (\<lambda>r. topic_message_id r = t) (messages db) = []
           \<and> filter (\<lambda>r. m_userid r = u \<and> private_message_id r = p) (messages db) = []
          \<longrightarrow> insert_message db u p t sp rs now =
                Inr (db\<lparr>messages := messages db @
                  [\<lparr>m_id = next_id (map m_id (messages db)), m_userid = u, private_message_id = p,
                    topic_message_id = t, m_spam = sp, m_reason = rs, m_time = now\<rparr>]\<rparr>))
       \<and> (filter (\<lambda>r. topic_message_id r = t) (messages db) \<noteq> []
           \<or> filter (\<lambda>r. m_userid r = u \<and> private_message_id r = p) (messages db) \<noteq> []
          \<longrightarrow> insert_message db u p t sp rs now = Inr db)
       \<and> (insert_message_requery ok db u p t = Inl (RuntimeError msg) \<longleftrightarrow>
            \<not> ok \<and> filter (\<lambda>r. topic_message_id r = t) (messages db) = []
            \<and> filter (\<lambda>r. m_userid r = u \<and> private_message_id r = p) (messages db) = []
            \<and> msg = ''insert_message failed but no existing row found'')
       \<and> insert_message db u p t sp rs now \<noteq> Inl (RuntimeError msg)
       \<and> (\<exists>db1. insert_message db u p t sp rs now = Inr db1
              \<and> insert_message db1 u p t sp' rs' now' = Inr db1
              \<and> messages_unique (messages db1)
              \<and> length (filter (\<lambda>r. m_userid r = u \<and> private_message_id r = p \<and> topic_message_id r = t)
                          (messages db1)) \<le> 1
              \<and> (filter (\<lambda>r. topic_message_id r = t) (messages db) = []
                  \<and> filter (\<lambda>r. m_userid r = u \<and> private_message_id r = p) (messages db) = []
                 \<longrightarrow> length (filter (\<lambda>r. m_userid r = u \<and> private_message_id r = p \<and> topic_message_id r = t)
                          (messages db1)) = 1
                     \<and> length (filter (\<lambda>r. topic_message_id r = t) (messages db1)) = 1
                     \<and> length (filter (\<lambda>r. m_userid r = u \<and> private_message_id r = p) (messages db1)) = 1
                     \<and> length (messages db1) = Suc (length (messages db))))"
proof -
  let ?bt = "filter (\<lambda>r. topic_message_id r = t) (messages db)"
  let ?bp = "filter (\<lambda>r. m_userid r = u \<and> private_message_id r = p) (messages db)"
  let ?row = "\<lparr>m_id = next_id (map m_id (messages db)), m_userid = u, private_message_id = p,
                    topic_message_id = t, m_spam = sp, m_reason = rs, m_time = now\<rparr>"
  have A: "?bt = [] \<and> ?bp = [] \<Longrightarrow>
             insert_message db u p t sp rs now = Inr (db\<lparr>messages := messages db @ [?row]\<rparr>)"
    using insert_message_fresh by blast
  have B: "?bt \<noteq> [] \<or> ?bp \<noteq> [] \<Longrightarrow> insert_message db u p t sp rs now = Inr db"
    using insert_message_conflict[OF assms] by blast
  have C: "insert_message_requery ok db u p t = Inl (RuntimeError msg) \<longleftrightarrow>
            \<not> ok \<and> ?bt = [] \<and> ?bp = [] \<and> msg = ''insert_message failed but no existing row found''"
    by (rule requery_fatal_iff[OF assms])
  have D: "insert_message db u p t sp rs now \<noteq> Inl (RuntimeError msg)"
    by (rule insert_message_never_fatal)
  obtain db1 where db1: "insert_message db u p t sp rs now = Inr db1"
    using A B by (cases "?bt = [] \<and> ?bp = []") blast+
  have U: "messages_unique (messages db1)" by (rule insert_message_unique[OF assms db1])
  have present: "filter (\<lambda>r. topic_message_id r = t) (messages db1) \<noteq> []
           \<or> filter (\<lambda>r. m_userid r = u \<and> private_message_id r = p) (messages db1) \<noteq> []"
  proof (cases "?bt = [] \<and> ?bp = []")
    case True
    then have "db1 = db\<lparr>messages := messages db @ [?row]\<rparr>" using A db1 by simp
    then show ?thesis by simp
  next
    case False
    then have "db1 = db" using B db1 by auto
    then show ?thesis using False by simp
  qed
  have second: "insert_message db1 u p t sp' rs' now' = Inr db1"
    by (rule insert_message_conflict[OF U present])
  have d1: "distinct (map (\<lambda>r. (m_userid r, private_message_id r, topic_message_id r)) (messages db1))"
  proof -
    have "distinct (map topic_message_id (messages db1))" using U by (simp add: messages_unique_def)
    then have "distinct (map (\<lambda>k. snd (snd k))
                 (map (\<lambda>r. (m_userid r, private_message_id r, topic_message_id r)) (messages db1)))"
      by (simp add: comp_def)
    then show ?thesis by (rule distinct_map[THEN iffD1, THEN conjunct1])
  qed
  have le1: "length (filter (\<lambda>r. m_userid r = u \<and> private_message_id r = p \<and> topic_message_id r = t)
                          (messages db1)) \<le> 1"
  proof (cases "(u, p, t) \<in> (\<lambda>r. (m_userid r, private_message_id r, topic_message_id r)) ` set (messages db1)")
    case True
    have "length (filter (\<lambda>r. (m_userid r, private_message_id r, topic_message_id r) = (u, p, t)) (messages db1)) = 1"
      by (rule filter_one_if_distinct[OF d1 True])
    then show ?thesis by simp
  next
    case False
    then have "filter (\<lambda>r. m_userid r = u \<and> private_message_id r = p \<and> topic_message_id r = t) (messages db1) = []"
      by (force simp: filter_empty_conv image_iff)
    then show ?thesis by simp
  qed
  have fresh: "length (filter (\<lambda>r. m_userid r = u \<and> private_message_id r = p \<and> topic_message_id r = t)
                          (messages db1)) = 1
                     \<and> length (filter (\<lambda>r. topic_message_id r = t) (messages db1)) = 1
                     \<and> length (filter (\<lambda>r. m_userid r = u \<and> private_message_id r = p) (messages db1)) = 1
                     \<and> length (messages db1) = Suc (length (messages db))"
    if f: "?bt = [] \<and> ?bp = []"
  proof -
    have eq: "messages db1 = messages db @ [?row]" using A[OF f] db1 by auto
    have "filter (\<lambda>r. m_userid r = u \<and> private_message_id r = p \<and> topic_message_id r = t) (messages db) = []"
      using f by (auto simp: filter_empty_conv)
    then show ?thesis using f unfolding eq by simp
  qed
  have E: "\<exists>db1. insert_message db u p t sp rs now = Inr db1
              \<and> insert_message db1 u p t sp' rs' now' = Inr db1
              \<and> messages_unique (messages db1)
              \<and> length (filter (\<lambda>r. m_userid r = u \<and> private_message_id r = p \<and> topic_message_id r = t)
                          (messages db1)) \<le> 1
              \<and> (?bt = [] \<and> ?bp = []
                 \<longrightarrow> length (filter (\<lambda>r. m_userid r = u \<and> private_message_id r = p \<and> topic_message_id r = t)
                          (messages db1)) = 1
                     \<and> length (filter (\<lambda>r. topic_message_id r = t) (messages db1)) = 1
                     \<and> length (filter (\<lambda>r. m_userid r = u \<and> private_message_id r = p) (messages db1)) = 1
                     \<and> length (messages db1) = Suc (length (messages db)))"
    using db1 second U le1 fresh by (intro exI[of _ db1]) blast
  from A B C D E show ?thesis by (intro conjI impI) (assumption | blast)+
qed

text \<open>Two insertions of (1, 10, 100) into the empty repository leave one row.\<close>

theorem insert_message_idempotent_witness:
  "messages_unique (messages empty_repo)
   \<and> filter (\<lambda>r. topic_message_id r = 100) (messages empty_repo) = []
   \<and> insert_message empty_repo 1 10 100 False NoTextMessage 5 =
       Inr (empty_repo\<lparr>messages :=
              [\<lparr>m_id = 1, m_userid = 1, private_message_id = 10, topic_message_id = 100,
                m_spam = False, m_reason = NoTextMessage, m_time = 5\<rparr>]\<rparr>)
   \<and> (\<exists>db1. insert_message empty_repo 1 10 100 False NoTextMessage 5 = Inr db1
          \<and> insert_message db1 1 10 100 False NoTextMessage 6 = Inr db1
          \<and> length (filter (\<lambda>r. m_userid r = 1 \<and> private_message_id r = 10 \<and> topic_message_id r = 100)
                      (messages db1)) = 1)"
  using insert_message_idempotent
    [of empty_repo 100 1 10 False NoTextMessage 5 True "''''" False NoTextMessage 6]
  by (auto simp: empty_repo_def messages_unique_def next_id_def)

subsection \<open>Deleting a mapped message\<close>



lemma call_gateway_cases:
  "(\<exists>e. call_gateway ev rq s = (Inl e, s)) \<or> (\<exists>r. call_gateway ev rq s = (Inr r, s\<lparr>sent := sent s @ [rq]\<rparr>))"
  by (cases "gateway ev rq") (simp_all add: call_gateway_def)

lemma call_gateway_repo: "uf_repo (snd (call_gateway ev rq s)) = uf_repo s"
  by (cases "gateway ev rq") (simp_all add: call_gateway_def)

lemma call_gateway_cache: "cache (snd (call_gateway ev rq s)) = cache s"
  by (cases "gateway ev rq") (simp_all add: call_gateway_def)

lemma reply_only_repo:
  "uf_repo (snd (case call_gateway ev rq s of (Inl e, s1) \<Rightarrow> (Inl e, s1) | (Inr x, s1) \<Rightarrow> (Inr (), s1))) = uf_repo s"
  by (cases "gateway ev rq") (simp_all add: call_gateway_def)

lemma delete_cmd_error_keeps_repo:
  assumes err: "fst (delete_cmd self ev upd s) = Inl e"
  shows "uf_repo (snd (delete_cmd self ev upd s)) = uf_repo s"
proof (cases "\<exists>m usr chat. message upd = Some m \<and> effective_user upd = Some usr \<and> effective_chat upd = Some chat")
  case False
  then have "delete_cmd self ev upd s = (Inr (), s)"
    by (auto simp: delete_cmd_def split: option.splits)
  then show ?thesis by simp
next
  case True
  then obtain m usr chat where u: "message upd = Some m" "effective_user upd = Some usr"
      "effective_chat upd = Some chat" by blast
  show ?thesis
  proof (cases "reply_to_message m = None \<or> reply_to_message m = message_thread_id m")
    case True
    then have "delete_cmd self ev upd s =
        (case call_gateway ev (ReplyText (chat_id chat) (message_id m) ReplyToAMessage) s of
               (Inl e, s1) \<Rightarrow> (Inl e, s1)
             | (Inr sent_id, s1) \<Rightarrow> (Inr (), s1))"
      using u by (simp add: delete_cmd_def)
    then show ?thesis by (simp only: reply_only_repo)
  next
    case False
    then obtain i where nr: "reply_to_message m = Some i" "message_thread_id m \<noteq> Some i"
      by (cases "reply_to_message m") auto
    let ?i = "i"
    let ?sel = "if chat_type chat = Private
                      then Some (select_message (uf_repo s) ?i False (Some (tg_id usr)))
                      else if is_forum chat
                      then Some (select_message (uf_repo s) ?i True None)
                      else None"
    have body: "delete_cmd self ev upd s =
       (case ?sel of
                  None \<Rightarrow>
                    (case call_gateway ev (ReplyText (chat_id chat) (message_id m) InvalidMessageObject) s of
                       (Inl e, s1) \<Rightarrow> (Inl e, s1)
                     | (Inr sent_id, s1) \<Rightarrow> (Inr (), s1))
                | Some (Inl e) \<Rightarrow> (Inl e, s)
                | Some (Inr None) \<Rightarrow>
                    (case call_gateway ev (ReplyText (chat_id chat) (message_id m) NoLongerDeletable) s of
                       (Inl e, s1) \<Rightarrow> (Inl e, s1)
                     | (Inr sent_id, s1) \<Rightarrow> (Inr (), s1))
                | Some (Inr (Some msg)) \<Rightarrow>
                    (case call_gateway ev (DeleteMessage (m_userid msg) (private_message_id msg)) s of
                       (Inl e, s1) \<Rightarrow> (Inl e, s1)
                     | (Inr d1, s1) \<Rightarrow>
                         (case call_gateway ev (DeleteMessage (topic_chat_id self) (topic_message_id msg)) s1 of
                            (Inl e, s2) \<Rightarrow> (Inl e, s2)
                          | (Inr d2, s2) \<Rightarrow> (Inr (), s2\<lparr>uf_repo := delete_message (uf_repo s2) msg\<rparr>))))"
      using u nr by (simp add: delete_cmd_def Let_def)
    show ?thesis
    proof (cases ?sel)
      case None
      show ?thesis unfolding body None by (simp only: option.case reply_only_repo)
    next
      case (Some r)
      show ?thesis
      proof (cases r)
        case (Inl e')
        show ?thesis unfolding body Some Inl by simp
      next
        case (Inr ro)
        show ?thesis
        proof (cases ro)
          case None
          show ?thesis unfolding body Some Inr None by (simp only: option.case sum.case reply_only_repo)
        next
          case (Some msg)
          note b = body[unfolded \<open>?sel = Some r\<close> Inr Some, simplified]
          show ?thesis
          proof (cases "gateway ev (DeleteMessage (m_userid msg) (private_message_id msg))")
            case (Raised e1)
            then show ?thesis unfolding b by (simp add: call_gateway_def)
          next
            case (Returned a)
            show ?thesis
            proof (cases "gateway ev (DeleteMessage (topic_chat_id self) (topic_message_id msg))")
              case (Raised e2)
              then show ?thesis unfolding b using Returned by (simp add: call_gateway_def)
            next
              case (Returned b')
              then have "fst (delete_cmd self ev upd s) = Inr ()"
                unfolding b using \<open>gateway ev (DeleteMessage (m_userid msg) (private_message_id msg)) = Returned a\<close>
                by (simp add: call_gateway_def)
              then show ?thesis using err by simp
            qed
          qed
        qed
      qed
    qed
  qed
qed

text \<open>
  Claim C7. The command \<^verbatim>\<open>/d\<close> on a reply to a mapped message: when the gateway answers both
  deletions, the private copy is deleted first, the thread copy second, and then the mapping
  row is removed. When the first deletion raises, nothing has happened; when the second raises,
  only the private copy was deleted; in both cases the exception is raised and the mapping row
  stays. Whenever the handler raises, the repository is as it was.
\<close>

theorem delete_cmd_mapping_removed_last:
  assumes "message upd = Some m" and "effective_user upd = Some usr" and "effective_chat upd = Some chat"
      and "reply_to_message m = Some i" and "message_thread_id m \<noteq> Some i"
      and "(if chat_type chat = Private then select_message (uf_repo s) i False (Some (tg_id usr))
            else select_message (uf_repo s) i True None) = Inr (Some msg)"
      and "chat_type chat = Private \<or> is_forum chat"
  shows "(\<forall>a b. gateway ev (DeleteMessage (m_userid msg) (private_message_id msg)) = Returned a
            \<and> gateway ev (DeleteMessage (topic_chat_id self) (topic_message_id msg)) = Returned b
          \<longrightarrow> delete_cmd self ev upd s =
                (Inr (), s\<lparr>sent := sent s @ [DeleteMessage (m_userid msg) (private_message_id msg),
                                              DeleteMessage (topic_chat_id self) (topic_message_id msg)],
                          uf_repo := (uf_repo s)\<lparr>messages := filter (\<lambda>r. m_id r \<noteq> m_id msg) (messages (uf_repo s))\<rparr>\<rparr>))
       \<and> (\<forall>e. gateway ev (DeleteMessage (m_userid msg) (private_message_id msg)) = Raised e
          \<longrightarrow> delete_cmd self ev upd s = (Inl e, s))
       \<and> (\<forall>a e. gateway ev (DeleteMessage (m_userid msg) (private_message_id msg)) = Returned a
            \<and> gateway ev (DeleteMessage (topic_chat_id self) (topic_message_id msg)) = Raised e
          \<longrightarrow> delete_cmd self ev upd s =
                (Inl e, s\<lparr>sent := sent s @ [DeleteMessage (m_userid msg) (private_message_id msg)]\<rparr>))
       \<and> (\<forall>e. fst (delete_cmd self ev upd s) = Inl e \<longrightarrow> uf_repo (snd (delete_cmd self ev upd s)) = uf_repo s)"
proof -
  let ?d1 = "DeleteMessage (m_userid msg) (private_message_id msg)"
  let ?d2 = "DeleteMessage (topic_chat_id self) (topic_message_id msg)"
  have sel: "(if chat_type chat = Private
                      then Some (select_message (uf_repo s) i False (Some (tg_id usr)))
                      else if is_forum chat
                      then Some (select_message (uf_repo s) i True None)
                      else None) = Some (Inr (Some msg))"
    using assms(6,7) by (auto split: if_splits)
  have step: "delete_cmd self ev upd s =
     (case call_gateway ev ?d1 s of
        (Inl e, s1) \<Rightarrow> (Inl e, s1)
      | (Inr d1, s1) \<Rightarrow>
          (case call_gateway ev ?d2 s1 of
             (Inl e, s2) \<Rightarrow> (Inl e, s2)
           | (Inr d2, s2) \<Rightarrow> (Inr (), s2\<lparr>uf_repo := delete_message (uf_repo s2) msg\<rparr>)))"
    unfolding delete_cmd_def using assms(1-5) sel by (simp add: Let_def)
  have A: "delete_cmd self ev upd s =
                (Inr (), s\<lparr>sent := sent s @ [?d1, ?d2],
                          uf_repo := (uf_repo s)\<lparr>messages := filter (\<lambda>r. m_id r \<noteq> m_id msg) (messages (uf_repo s))\<rparr>\<rparr>)"
    if "gateway ev ?d1 = Returned a" "gateway ev ?d2 = Returned b" for a b
    unfolding step using that by (simp add: call_gateway_def delete_message_def)
  have B: "delete_cmd self ev upd s = (Inl e, s)" if "gateway ev ?d1 = Raised e" for e
    unfolding step using that by (simp add: call_gateway_def)
  have C: "delete_cmd self ev upd s = (Inl e, s\<lparr>sent := sent s @ [?d1]\<rparr>)"
    if "gateway ev ?d1 = Returned a" "gateway ev ?d2 = Raised e" for a e
    unfolding step using that by (simp add: call_gateway_def)
  have D: "uf_repo (snd (delete_cmd self ev upd s)) = uf_repo s" if "fst (delete_cmd self ev upd s) = Inl e" for e
    using that by (rule delete_cmd_error_keeps_repo)
  show ?thesis
  proof (intro conjI allI impI)
    fix a b
    assume "gateway ev ?d1 = Returned a \<and> gateway ev ?d2 = Returned b"
    then show "delete_cmd self ev upd s =
                (Inr (), s\<lparr>sent := sent s @ [?d1, ?d2],
                          uf_repo := (uf_repo s)\<lparr>messages := filter (\<lambda>r. m_id r \<noteq> m_id msg) (messages (uf_repo s))\<rparr>\<rparr>)"
      using A by blast
  next
    fix e
    assume "gateway ev ?d1 = Raised e"
    then show "delete_cmd self ev upd s = (Inl e, s)" by (rule B)
  next
    fix a e
    assume "gateway ev ?d1 = Returned a \<and> gateway ev ?d2 = Raised e"
    then show "delete_cmd self ev upd s = (Inl e, s\<lparr>sent := sent s @ [?d1]\<rparr>)" using C by blast
  next
    fix e
    assume "fst (delete_cmd self ev upd s) = Inl e"
    then show "uf_repo (snd (delete_cmd self ev upd s)) = uf_repo s" by (rule D)
  qed
qed

text \<open>
  User 7 replies \<^verbatim>\<open>/d\<close> to message 40: with a gateway that answers, both copies and the row
  are deleted; with a gateway that fails on the thread copy, the row stays.
\<close>

theorem delete_cmd_mapping_removed_last_witness:
  "message (example_update 51 (Some ''/d'') (Some 40))
     = Some \<lparr>message_id = 51, msg_text = Some ''/d'', message_thread_id = None, reply_to_message = Some 40\<rparr>
   \<and> effective_user (example_update 51 (Some ''/d'') (Some 40)) = Some example_user
   \<and> effective_chat (example_update 51 (Some ''/d'') (Some 40)) = Some example_chat
   \<and> select_message (uf_repo example_state_mapped) 40 False (Some (tg_id example_user)) = Inr (Some example_row)
   \<and> chat_type example_chat = Private
   \<and> delete_cmd example_bot (example_env gateway_ok 0) (example_update 51 (Some ''/d'') (Some 40))
        example_state_mapped
       = (Inr (), example_state_mapped
                    \<lparr>sent := sent example_state_mapped @ [DeleteMessage 7 40, DeleteMessage (- 1001) 400],
                     uf_repo := (uf_repo example_state_mapped)\<lparr>messages := []\<rparr>\<rparr>)
   \<and> delete_cmd example_bot (example_env gateway_group_delete_fails 0) (example_update 51 (Some ''/d'') (Some 40))
        example_state_mapped
       = (Inl TelegramError, example_state_mapped\<lparr>sent := sent example_state_mapped @ [DeleteMessage 7 40]\<rparr>)"
proof -
  let ?m = "\<lparr>message_id = 51, msg_text = Some ''/d'', message_thread_id = None, reply_to_message = Some 40\<rparr>"
  let ?upd = "example_update 51 (Some ''/d'') (Some 40)"
  have h1: "message ?upd = Some ?m" by (simp add: example_update_def)
  have h2: "effective_user ?upd = Some example_user" by (simp add: example_update_def)
  have h3: "effective_chat ?upd = Some example_chat" by (simp add: example_update_def)
  have h4: "reply_to_message ?m = Some 40" by simp
  have h5: "message_thread_id ?m \<noteq> Some 40" by simp
  have sel: "select_message (uf_repo example_state_mapped) 40 False (Some (tg_id example_user)) = Inr (Some example_row)"
    by (simp add: example_state_mapped_def example_state_def empty_repo_def example_row_def
        example_user_def select_message_def scalar_one_or_none_def)
  have pr: "chat_type example_chat = Private" by (simp add: example_chat_def)
  have h6: "(if chat_type example_chat = Private
             then select_message (uf_repo example_state_mapped) 40 False (Some (tg_id example_user))
             else select_message (uf_repo example_state_mapped) 40 True None) = Inr (Some example_row)"
    using sel pr by simp
  have h7: "chat_type example_chat = Private \<or> is_forum example_chat" using pr by simp
  note T = delete_cmd_mapping_removed_last[OF h1 h2 h3 h4 h5 h6 h7]
  have ok: "delete_cmd example_bot (example_env gateway_ok 0) ?upd example_state_mapped
       = (Inr (), example_state_mapped
                    \<lparr>sent := sent example_state_mapped @ [DeleteMessage 7 40, DeleteMessage (- 1001) 400],
                     uf_repo := (uf_repo example_state_mapped)\<lparr>messages := []\<rparr>\<rparr>)"
    using T[of "example_env gateway_ok 0" example_bot, THEN conjunct1, rule_format, of 1 1]
    by (simp add: example_env_def gateway_ok_def example_row_def example_bot_def
        example_state_mapped_def example_state_def empty_repo_def)
  have fail: "delete_cmd example_bot (example_env gateway_group_delete_fails 0) ?upd example_state_mapped
       = (Inl TelegramError, example_state_mapped\<lparr>sent := sent example_state_mapped @ [DeleteMessage 7 40]\<rparr>)"
    using T[of "example_env gateway_group_delete_fails 0" example_bot, THEN conjunct2, THEN conjunct2,
            THEN conjunct1, rule_format, of 1 TelegramError]
    by (simp add: example_env_def example_row_def example_bot_def)
  show ?thesis by (intro conjI) (rule h1 h2 h3 sel pr ok fail)+
qed


subsection \<open>The steps of the private-to-group relay\<close>

text \<open>
  Topic creation, topic resolution and the forward to the moderation thread are quiet steps;
  the relay of the message is quiet but for the mapping it records, and it records one only
  when it returns normally.
\<close>

lemma quiet_refl: "quiet P s s"
  by (simp add: quiet_def)

lemma quiet_trans: "quiet P s s1 \<Longrightarrow> quiet P s1 s2 \<Longrightarrow> quiet P s s2"
  unfolding quiet_def by (elim conjE exE) (simp add: list_all_append)

lemma quiet_call_gateway:
  assumes "P rq" and "call_gateway ev rq s = (r, s1)"
  shows "quiet P s s1"
  using assms by (cases "gateway ev rq") (auto simp: call_gateway_def quiet_def)

lemma flag_of_set_flag:
  "flag_of (set_flag c u k v) u' k' = (if u' = u \<and> k' = k then Some v else flag_of c u' k')"
  by (auto simp: flag_of_def set_flag_def get_user_data_dict_def split: option.splits)

lemma flag_of_get_flag [simp]: "flag_of (snd (get_flag c u k d)) u' k' = flag_of c u' k'"
  by (auto simp: flag_of_def get_flag_def get_user_data_dict_def split: option.splits)

lemma fst_get_flag: "fst (get_flag c u k d) = (case flag_of c u k of None \<Rightarrow> d | Some v \<Rightarrow> v)"
  by (auto simp: flag_of_def get_flag_def get_user_data_dict_def split: option.splits)

lemma queues_set_flag [simp]:
  "user_message_time_queues (set_flag c u k v) = user_message_time_queues c"
  by (simp add: set_flag_def get_user_data_dict_def split: option.splits)

lemma queues_get_flag [simp]:
  "user_message_time_queues (snd (get_flag c u k d)) = user_message_time_queues c"
  by (simp add: get_flag_def get_user_data_dict_def split: option.splits)

lemma queues_get_user_lock [simp]:
  "user_message_time_queues (snd (get_user_lock c u)) = user_message_time_queues c"
  by (simp add: get_user_lock_def setdefault_def Let_def split: option.splits)

lemma flag_of_get_user_lock [simp]: "flag_of (snd (get_user_lock c u)) u' k' = flag_of c u' k'"
  by (simp add: flag_of_def get_user_lock_def setdefault_def Let_def split: option.splits)

lemma flag_of_flood_message [simp]: "flag_of (snd (flood_message c u w t)) u' k' = flag_of c u' k'"
  by (simp add: flag_of_def flood_message_def get_user_message_time_queue_def Let_def split: option.splits)

lemma quiet_set_to_topic:
  "quiet P s (s\<lparr>cache := set_flag (cache s) u ''to_topic'' v\<rparr>)"
  by (simp add: quiet_def flag_of_set_flag)

lemma insert_user_frame:
  assumes "insert_user db row = Inr db'"
  shows "block_users db' = block_users db \<and> verify_users db' = verify_users db \<and> messages db' = messages db"
  using assms
  by (auto simp: insert_user_def add_and_flush_users_def split: sum.splits option.splits if_splits)

lemma quiet_create_topic_try:
  assumes "create_topic_try self ev usr n p s = (r, s')" and "\<And>rq. \<not> is_flood_reply rq \<Longrightarrow> P rq"
  shows "quiet P s s'"
proof -
  let ?rq1 = "CreateForumTopic (topic_chat_id self) n (tg_id usr)"
  obtain r1 s1 where c1: "call_gateway ev ?rq1 s = (r1, s1)" by (cases "call_gateway ev ?rq1 s")
  have q1: "quiet P s s1" using c1 assms(2) by (intro quiet_call_gateway[of P ?rq1]) auto
  show ?thesis
  proof (cases r1)
    case (Inl e)
    then have "s' = s1" using assms(1) c1 by (simp add: create_topic_try_def)
    then show ?thesis using q1 by simp
  next
    case (Inr thread)
    let ?rq2 = "SendMessage (topic_chat_id self) (Some thread) (UserCard (tg_id usr) n p)"
    obtain r2 s2 where c2: "call_gateway ev ?rq2 s1 = (r2, s2)" by (cases "call_gateway ev ?rq2 s1")
    have q2: "quiet P s s2"
      using q1 c2 assms(2) by (intro quiet_trans[OF q1] quiet_call_gateway[of P ?rq2]) auto
    show ?thesis
    proof (cases r2)
      case (Inl e)
      then have "s' = s2" using assms(1) c1 c2 Inr by (simp add: create_topic_try_def)
      then show ?thesis using q2 by simp
    next
      case r2: (Inr sent_id)
      let ?row = "\<lparr>u_id = 0, u_userid = tg_id usr, username = tg_username usr,
                        first_name = tg_first_name usr, last_name = tg_last_name usr,
                        full_name = n, language_code = tg_language_code usr,
                        is_premium = p, topic = thread,
                        first_active_time = wall_clock ev\<rparr>"
      show ?thesis
      proof (cases "insert_user (uf_repo s2) ?row")
        case (Inl e)
        then have "s' = s2" using assms(1) c1 c2 Inr r2 by (simp add: create_topic_try_def)
        then show ?thesis using q2 by simp
      next
        case iu: (Inr db)
        then have "s' = s2\<lparr>uf_repo := db\<rparr>" using assms(1) c1 c2 Inr r2 by (simp add: create_topic_try_def)
        moreover have "quiet P s2 (s2\<lparr>uf_repo := db\<rparr>)"
          using insert_user_frame[OF iu] by (simp add: quiet_def)
        ultimately show ?thesis using q2 quiet_trans by blast
      qed
    qed
  qed
qed

lemma quiet_bind:
  assumes "(case f s of (Inl e, s1) \<Rightarrow> (Inl e, s1) | (Inr x, s1) \<Rightarrow> g x s1) = (r, s')"
    and "\<And>r1 s1. f s = (r1, s1) \<Longrightarrow> quiet P s s1"
    and "\<And>x s1 r1. f s = (Inr x, s1) \<Longrightarrow> g x s1 = (r, s') \<Longrightarrow> quiet P s1 s'"
  shows "quiet P s s'"
proof (cases "f s")
  case (Pair r1 s1)
  show ?thesis
  proof (cases r1)
    case (Inl e)
    then have "s' = s1" using assms(1) Pair by simp
    then show ?thesis using assms(2)[OF Pair] by simp
  next
    case (Inr x)
    then have "g x s1 = (r, s')" using assms(1) Pair by simp
    then show ?thesis using assms(2)[OF Pair] assms(3)[of x s1] Pair Inr quiet_trans by blast
  qed
qed

lemma quiet_reply_only:
  assumes "(case call_gateway ev rq s of (Inl e, s1) \<Rightarrow> (Inl e, s1) | (Inr x, s1) \<Rightarrow> (c x, s1)) = (r, s')"
    and "P rq"
  shows "quiet P s s'"
  using assms by (cases "gateway ev rq") (auto simp: call_gateway_def quiet_def)

lemma quiet_create_topic:
  assumes "create_topic self ev upd s = (r, s')" and P: "\<And>rq. \<not> is_flood_reply rq \<Longrightarrow> P rq"
  shows "quiet P s s'"
proof (cases "effective_user upd")
  case None
  then show ?thesis using assms(1) by (simp add: create_topic_def quiet_refl)
next
  case (Some usr)
  let ?n = "if length (tg_full_name usr) > 32 then take 16 (tg_first_name usr) else tg_full_name usr"
  let ?p = "case tg_is_premium usr of None \<Rightarrow> False | Some b \<Rightarrow> b"
  show ?thesis
  proof (cases "select_user (uf_repo s) (tg_id usr) ByUserid")
    case (Inl e)
    then show ?thesis using assms(1) Some by (simp add: create_topic_def quiet_refl)
  next
    case (Inr ro)
    show ?thesis
    proof (cases ro)
      case (Some existing)
      then have "s' = s\<lparr>cache := set_flag (cache s) (tg_id usr) ''to_topic'' (PInt (topic existing))\<rparr>"
        using assms(1) \<open>effective_user upd = Some usr\<close> Inr by (simp add: create_topic_def)
      then show ?thesis by (simp add: quiet_set_to_topic)
    next
      case None
      obtain r1 s1 where t: "create_topic_try self ev usr ?n ?p s = (r1, s1)"
        by (cases "create_topic_try self ev usr ?n ?p s")
      have q1: "quiet P s s1" by (rule quiet_create_topic_try[OF t P])
      show ?thesis
      proof (cases r1)
        case (Inl e)
        have "(case call_gateway ev (SendMessage (admin_user_id self) None (CreateTopicFailed ?n (tg_id usr) e)) s1 of
                          (Inl e', s2) \<Rightarrow> (Inl e', s2)
                        | (Inr sent_id, s2) \<Rightarrow> (Inr (), s2)) = (r, s')"
          using assms(1) Some Inr None t Inl by (simp add: create_topic_def Let_def)
        then have "quiet P s1 s'" by (rule quiet_reply_only) (simp add: P)
        then show ?thesis using q1 quiet_trans by blast
      next
        case (Inr thread)
        then have "s' = s1\<lparr>cache := set_flag (cache s1) (tg_id usr) ''to_topic'' (PInt thread)\<rparr>"
          using assms(1) Some \<open>select_user (uf_repo s) (tg_id usr) ByUserid = Inr ro\<close> None t
          by (simp add: create_topic_def Let_def)
        then show ?thesis using q1 quiet_set_to_topic quiet_trans by blast
      qed
    qed
  qed
qed

lemma quiet_resolve_topic_id:
  assumes "resolve_topic_id self ev upd userid chat m to_topic s = (r, s')"
      and P: "\<And>rq. \<not> is_flood_reply rq \<Longrightarrow> P rq"
  shows "quiet P s s'"
proof (cases "truthy to_topic")
  case True
  then show ?thesis using assms(1) by (simp add: resolve_topic_id_def quiet_refl)
next
  case False
  show ?thesis
  proof (cases "select_user (uf_repo s) userid ByUserid")
    case (Inl e)
    then show ?thesis using assms(1) False by (simp add: resolve_topic_id_def quiet_refl)
  next
    case (Inr ro)
    show ?thesis
    proof (cases ro)
      case (Some row)
      then have "s' = s\<lparr>cache := set_flag (cache s) userid ''to_topic'' (PInt (topic row))\<rparr>"
        using assms(1) False Inr by (simp add: resolve_topic_id_def)
      then show ?thesis by (simp add: quiet_set_to_topic)
    next
      case None
      obtain r1 s1 where t: "create_topic self ev upd s = (r1, s1)" by (cases "create_topic self ev upd s")
      have q1: "quiet P s s1" by (rule quiet_create_topic[OF t P])
      show ?thesis
      proof (cases r1)
        case (Inl e)
        then have "s' = s1" using assms(1) False Inr None t by (simp add: resolve_topic_id_def)
        then show ?thesis using q1 by simp
      next
        case r1: (Inr u)
        show ?thesis
        proof (cases "select_user (uf_repo s1) userid ByUserid")
          case (Inl e)
          then have "s' = s1" using assms(1) False Inr None t r1 by (simp add: resolve_topic_id_def)
          then show ?thesis using q1 by simp
        next
          case su: (Inr ro1)
          show ?thesis
          proof (cases ro1)
            case (Some row)
            then have "s' = s1\<lparr>cache := set_flag (cache s1) userid ''to_topic'' (PInt (topic row))\<rparr>"
              using assms(1) False Inr None t r1 su by (simp add: resolve_topic_id_def)
            then show ?thesis using q1 quiet_set_to_topic quiet_trans by blast
          next
            case n1: None
            have "(case call_gateway ev (ReplyText (chat_id chat) (message_id m) BotErrorUnavailable) s1 of
                         (Inl e, s2) \<Rightarrow> (Inl e, s2)
                       | (Inr sent_id, s2) \<Rightarrow> (Inl (PyException ''create topic failed''), s2)) = (r, s')"
              using assms(1) False Inr None t r1 su n1 by (simp add: resolve_topic_id_def)
            then have "quiet P s1 s'" by (rule quiet_reply_only) (simp add: P)
            then show ?thesis using q1 quiet_trans by blast
          qed
        qed
      qed
    qed
  qed
qed

lemma quiet_forward_on_spam_topic:
  assumes "forward_on_spam_topic self ev c i rs s = (r, s')"
      and P: "\<And>rq. \<not> is_flood_reply rq \<Longrightarrow> P rq"
  shows "quiet P s s'"
proof -
  let ?rq1 = "ForwardMessage (topic_chat_id self) (spam_topic_id self) c i"
  obtain r1 s1 where c1: "call_gateway ev ?rq1 s = (r1, s1)" by (cases "call_gateway ev ?rq1 s")
  have q1: "quiet P s s1" using c1 by (rule quiet_call_gateway[rotated]) (simp add: P)
  show ?thesis
  proof (cases r1)
    case (Inl e)
    then have "s' = s1" using assms(1) c1 by (simp add: forward_on_spam_topic_def)
    then show ?thesis using q1 by simp
  next
    case (Inr fwd)
    then have "(case call_gateway ev (ReplyText (topic_chat_id self) fwd (ReasonText rs)) s1 of
             (Inl e, s2) \<Rightarrow> (Inl e, s2)
           | (Inr sent_id, s2) \<Rightarrow> (Inr fwd, s2)) = (r, s')"
      using assms(1) c1 by (simp add: forward_on_spam_topic_def)
    then have "quiet P s1 s'" by (rule quiet_reply_only) (simp add: P)
    then show ?thesis using q1 quiet_trans by blast
  qed
qed

lemma scalar_one_or_none_exc: "scalar_one_or_none rows = Inl e \<Longrightarrow> e = MultipleResultsFound"
  by (auto simp: scalar_one_or_none_def split: list.splits)

lemma insert_block_exc: "insert_block db u p = Inl e \<Longrightarrow> e = MultipleResultsFound"
  by (auto simp: insert_block_def split: sum.splits option.splits if_splits dest: scalar_one_or_none_exc)


lemma insert_message_exc: "insert_message db u p t sp rs now = Inl e \<Longrightarrow> e \<noteq> TelegramTimedOut"
  by (auto simp: insert_message_def insert_message_requery_def Let_def
      split: sum.splits option.splits if_splits prod.splits dest: scalar_one_or_none_exc)

lemma insert_message_frame:
  assumes "insert_message db u p t sp rs now = Inr db'"
  shows "verify_users db' = verify_users db \<and> block_users db' = block_users db \<and> users db' = users db"
  using assms
  by (auto simp: insert_message_def insert_message_requery_def add_and_flush_messages_def Let_def
      split: sum.splits option.splits if_splits prod.splits)

lemma quiet_with_messages:
  "quiet P s s1 \<Longrightarrow> verify_users db = verify_users (uf_repo s1) \<Longrightarrow> block_users db = block_users (uf_repo s1)
    \<Longrightarrow> quiet P s (with_messages (s1\<lparr>uf_repo := db\<rparr>) (messages (uf_repo s)))"
  by (simp add: quiet_def with_messages_def)

lemma quiet_with_messages_same:
  "quiet P s s1 \<Longrightarrow> quiet P s (with_messages s1 (messages (uf_repo s)))"
  by (simp add: quiet_def with_messages_def)

lemma relay_message_frame:
  assumes rm: "relay_message self ev userid chat m topic_id s = (r, s')"
      and P: "\<And>rq. \<not> is_flood_reply rq \<Longrightarrow> P rq"
  shows "quiet P s (with_messages s' (messages (uf_repo s)))
         \<and> (\<forall>e. r = Inl e \<longrightarrow> messages (uf_repo s') = messages (uf_repo s))
         \<and> (r = Inl TelegramTimedOut \<longrightarrow> quiet P s s')"
proof -
  let ?verdict = "message_verdict self ev m"
  have key: "quiet P s (with_messages s' (messages (uf_repo s)))
         \<and> (\<forall>e. r = Inl e \<longrightarrow> messages (uf_repo s') = messages (uf_repo s))"
  proof (cases ?verdict)
    case (Inl e)
    then have "s' = s" using rm by (simp add: relay_message_def)
    then show ?thesis by (simp add: quiet_with_messages_same quiet_refl)
  next
    case (Inr v)
    obtain is_spam rs where v: "v = (is_spam, rs)" by (cases v)
    define step where "step = (if is_spam then forward_on_spam_topic self ev (chat_id chat) (message_id m) rs s
       else call_gateway ev (CopyMessage (topic_chat_id self) (Some topic_id) (chat_id chat) (message_id m)) s)"
    obtain r1 s1 where st: "step = (r1, s1)" by (cases step)
    have q1: "quiet P s s1"
    proof (cases is_spam)
      case True
      then show ?thesis using st quiet_forward_on_spam_topic[OF _ P] by (simp add: step_def)
    next
      case False
      then have "call_gateway ev (CopyMessage (topic_chat_id self) (Some topic_id) (chat_id chat) (message_id m)) s = (r1, s1)"
        using st by (simp add: step_def)
      then show ?thesis by (rule quiet_call_gateway[rotated]) (simp add: P)
    qed
    have body: "(r, s') = (case step of
               (Inl e, s1) \<Rightarrow> (Inl e, s1)
             | (Inr to_topic_msg, s1) \<Rightarrow>
                 (case insert_message (uf_repo s1) userid (message_id m) to_topic_msg is_spam rs
                         (wall_clock ev) of
                    Inl e \<Rightarrow> (Inl e, s1)
                  | Inr db \<Rightarrow> (Inr (), s1\<lparr>uf_repo := db\<rparr>)))"
    proof (cases is_spam)
      case True
      then have t: "is_spam = True" by simp
      show ?thesis using rm Inr v unfolding t by (simp add: relay_message_def step_def t)
    next
      case False
      then have f: "is_spam = False" by simp
      show ?thesis using rm Inr v unfolding f by (simp add: relay_message_def step_def f)
    qed
    show ?thesis
    proof (cases r1)
      case (Inl e)
      then have "s' = s1" using body st by simp
      then show ?thesis using q1 by (simp add: quiet_with_messages_same) (simp add: quiet_def)
    next
      case r1: (Inr k)
      show ?thesis
      proof (cases "insert_message (uf_repo s1) userid (message_id m) k is_spam rs (wall_clock ev)")
        case (Inl e)
        then have "s' = s1" using body st r1 by simp
        then show ?thesis using q1 by (simp add: quiet_with_messages_same) (simp add: quiet_def)
      next
        case (Inr db)
        then have "s' = s1\<lparr>uf_repo := db\<rparr>" "r = Inr ()" using body st r1 by simp_all
        then show ?thesis using q1 insert_message_frame[OF Inr] by (simp add: quiet_with_messages)
      qed
    qed
  qed
  moreover have "quiet P s s'" if "r = Inl TelegramTimedOut"
  proof -
    have "messages (uf_repo s') = messages (uf_repo s)" using key that by blast
    then have "with_messages s' (messages (uf_repo s)) = s'" by (simp add: with_messages_def)
    then show ?thesis using key by simp
  qed
  ultimately show ?thesis by blast
qed

lemma quiet_relay_trans:
  "quiet P a b \<Longrightarrow> quiet P b (with_messages c (messages (uf_repo b)))
     \<Longrightarrow> quiet P a (with_messages c (messages (uf_repo a)))"
proof -
  assume ab: "quiet P a b" and bc: "quiet P b (with_messages c (messages (uf_repo b)))"
  have "messages (uf_repo b) = messages (uf_repo a)" using ab by (simp add: quiet_def)
  then show ?thesis using quiet_trans[OF ab bc] by simp
qed

lemma flood_message_4:
  "flood_message c uid 4 now =
     (length (evict now 4 (queue_of c uid @ [now])),
      c\<lparr>user_message_time_queues := (user_message_time_queues c)(uid \<mapsto> evict now 4 (queue_of c uid @ [now]))\<rparr>)"
proof -
  have "evict now 4 (queue_of c uid @ [now]) \<noteq> []" by (rule evict_append_now_nonempty) simp
  then show ?thesis using flood_message_shape[of 4 c uid now] by (simp add: Let_def)
qed

text \<open>The body of the try for a message that is over the limit of 10.\<close>

lemma try_over_10:
  assumes cnt: "10 < fst (flood_message (cache s) uid 4 (monotonic ev))"
  shows "msg_to_topic_try self ev upd uid chat m tt s =
     (let s1 = s\<lparr>cache := snd (flood_message (cache s) uid 4 (monotonic ev))\<rparr> in
      case call_gateway ev (ReplyText (chat_id chat) (message_id m) BannedForFlooding) s1 of
              (Inl e, s2) \<Rightarrow> (Inl e, s2)
            | (Inr sent_id, s2) \<Rightarrow>
                (let s3 = s2\<lparr>cache := set_flag (cache s2) uid ''block'' (PBool True)\<rparr>
                 in case insert_block (uf_repo s3) uid None of
                      Inl e \<Rightarrow> (Inl e, s3)
                    | Inr db \<Rightarrow> (Inr (), s3\<lparr>uf_repo := db\<rparr>)))"
proof -
  obtain n cq where fm: "flood_message (cache s) uid 4 (monotonic ev) = (n, cq)"
    by (cases "flood_message (cache s) uid 4 (monotonic ev)")
  show ?thesis using cnt unfolding msg_to_topic_try_def fm by (simp add: Let_def)
qed

lemma try_upto_10:
  assumes cnt: "\<not> 10 < fst (flood_message (cache s) uid 4 (monotonic ev))"
  shows "msg_to_topic_try self ev upd uid chat m tt s =
     (let s1 = s\<lparr>cache := snd (flood_message (cache s) uid 4 (monotonic ev))\<rparr> in
      case (if fst (flood_message (cache s) uid 4 (monotonic ev)) > 7
                  then call_gateway ev (ReplyText (chat_id chat) (message_id m) FloodWarning) s1
                  else (Inr 0, s1)) of
              (Inl e, s2) \<Rightarrow> (Inl e, s2)
            | (Inr sent_id, s2) \<Rightarrow>
                (case resolve_topic_id self ev upd uid chat m tt s2 of
                   (Inl e, s3) \<Rightarrow> (Inl e, s3)
                 | (Inr topic_id, s3) \<Rightarrow> relay_message self ev uid chat m topic_id s3))"
proof -
  obtain n cq where fm: "flood_message (cache s) uid 4 (monotonic ev) = (n, cq)"
    by (cases "flood_message (cache s) uid 4 (monotonic ev)")
  show ?thesis using cnt unfolding msg_to_topic_try_def fm by (simp add: Let_def)
qed

lemma after_warning_frame:
  assumes "(case resolve_topic_id self ev upd uid chat m tt s2 of
                   (Inl e, s3) \<Rightarrow> (Inl e, s3)
                 | (Inr topic_id, s3) \<Rightarrow> relay_message self ev uid chat m topic_id s3) = (r, s')"
  shows "quiet (\<lambda>rq. \<not> is_flood_reply rq) s2 (with_messages s' (messages (uf_repo s2)))
         \<and> (\<forall>e. r = Inl e \<longrightarrow> messages (uf_repo s') = messages (uf_repo s2))"
proof -
  let ?P = "\<lambda>rq. \<not> is_flood_reply rq"
  obtain r3 s3 where rs: "resolve_topic_id self ev upd uid chat m tt s2 = (r3, s3)"
    by (cases "resolve_topic_id self ev upd uid chat m tt s2")
  have q3: "quiet ?P s2 s3" by (rule quiet_resolve_topic_id[OF rs]) simp
  then have m3: "messages (uf_repo s3) = messages (uf_repo s2)" by (simp add: quiet_def)
  show ?thesis
  proof (cases r3)
    case (Inl e)
    then have "s' = s3" using assms rs by simp
    then show ?thesis using q3 m3 by (simp add: quiet_with_messages_same)
  next
    case (Inr topic_id)
    then have rm: "relay_message self ev uid chat m topic_id s3 = (r, s')" using assms rs by simp
    have f: "quiet ?P s3 (with_messages s' (messages (uf_repo s3)))
         \<and> (\<forall>e. r = Inl e \<longrightarrow> messages (uf_repo s') = messages (uf_repo s3))"
      using relay_message_frame[OF rm, of ?P] by simp
    then show ?thesis using quiet_relay_trans[OF q3] m3 by simp
  qed
qed

lemma try_summary_upto_10:
  assumes cnt: "\<not> 10 < fst (flood_message (cache s) uid 4 (monotonic ev))"
      and run: "msg_to_topic_try self ev upd uid chat m tt s = (r, s2)"
  shows "\<exists>sw. (7 < fst (flood_message (cache s) uid 4 (monotonic ev))
                \<and> (\<exists>k. gateway ev (ReplyText (chat_id chat) (message_id m) FloodWarning) = Returned k)
               \<longrightarrow> sw = s\<lparr>cache := snd (flood_message (cache s) uid 4 (monotonic ev)),
                           sent := sent s @ [ReplyText (chat_id chat) (message_id m) FloodWarning]\<rparr>)
           \<and> (\<not> (7 < fst (flood_message (cache s) uid 4 (monotonic ev))
                \<and> (\<exists>k. gateway ev (ReplyText (chat_id chat) (message_id m) FloodWarning) = Returned k))
               \<longrightarrow> sw = s\<lparr>cache := snd (flood_message (cache s) uid 4 (monotonic ev))\<rparr>)
           \<and> quiet (\<lambda>rq. \<not> is_flood_reply rq) sw (with_messages s2 (messages (uf_repo sw)))
           \<and> (\<forall>e. r = Inl e \<longrightarrow> messages (uf_repo s2) = messages (uf_repo sw))"
proof -
  let ?n = "fst (flood_message (cache s) uid 4 (monotonic ev))"
  let ?sq = "s\<lparr>cache := snd (flood_message (cache s) uid 4 (monotonic ev))\<rparr>"
  let ?w = "ReplyText (chat_id chat) (message_id m) FloodWarning"
  let ?P = "\<lambda>rq. \<not> is_flood_reply rq"
  let ?rest = "\<lambda>s2. case resolve_topic_id self ev upd uid chat m tt s2 of
                   (Inl e, s3) \<Rightarrow> (Inl e, s3)
                 | (Inr topic_id, s3) \<Rightarrow> relay_message self ev uid chat m topic_id s3"
  note body = try_upto_10[OF cnt, where self=self and upd=upd and chat=chat and m=m and tt=tt, unfolded Let_def]
  show ?thesis
  proof (cases "7 < ?n")
    case False
    then have "?rest ?sq = (r, s2)" using run body by simp
    from after_warning_frame[OF this] show ?thesis using False
      by (intro exI[of _ ?sq]) simp
  next
    case True
    show ?thesis
    proof (cases "gateway ev ?w")
      case (Raised e)
      then have "r = Inl e" "s2 = ?sq" using run body True by (simp_all add: call_gateway_def)
      then show ?thesis using Raised quiet_with_messages_same[OF quiet_refl, of ?P ?sq]
        by (intro exI[of _ ?sq]) simp
    next
      case (Returned k)
      let ?sw = "s\<lparr>cache := snd (flood_message (cache s) uid 4 (monotonic ev)), sent := sent s @ [?w]\<rparr>"
      have "?rest ?sw = (r, s2)" using run body True Returned by (simp add: call_gateway_def)
      from after_warning_frame[OF this] show ?thesis using True Returned
        by (intro exI[of _ ?sw]) simp
    qed
  qed
qed

lemma try_summary_over_10:
  assumes cnt: "10 < fst (flood_message (cache s) uid 4 (monotonic ev))"
      and run: "msg_to_topic_try self ev upd uid chat m tt s = (r, s2)"
  shows "(\<forall>e. gateway ev (ReplyText (chat_id chat) (message_id m) BannedForFlooding) = Raised e
            \<longrightarrow> r = Inl e \<and> s2 = s\<lparr>cache := snd (flood_message (cache s) uid 4 (monotonic ev))\<rparr>)
       \<and> (\<forall>k. gateway ev (ReplyText (chat_id chat) (message_id m) BannedForFlooding) = Returned k
            \<longrightarrow> (case insert_block (uf_repo s) uid None of
                    Inl e \<Rightarrow> r = Inl e \<and> e \<noteq> TelegramTimedOut
                       \<and> s2 = s\<lparr>cache := set_flag (snd (flood_message (cache s) uid 4 (monotonic ev))) uid ''block'' (PBool True),
                                sent := sent s @ [ReplyText (chat_id chat) (message_id m) BannedForFlooding]\<rparr>
                  | Inr db \<Rightarrow> r = Inr ()
                       \<and> s2 = s\<lparr>cache := set_flag (snd (flood_message (cache s) uid 4 (monotonic ev))) uid ''block'' (PBool True),
                                sent := sent s @ [ReplyText (chat_id chat) (message_id m) BannedForFlooding],
                                uf_repo := db\<rparr>))"
proof -
  note body = try_over_10[OF cnt, where self=self and upd=upd and chat=chat and m=m and tt=tt, unfolded Let_def]
  show ?thesis
  proof (cases "gateway ev (ReplyText (chat_id chat) (message_id m) BannedForFlooding)")
    case (Raised e)
    then show ?thesis using run body by (simp add: call_gateway_def)
  next
    case (Returned k)
    show ?thesis
    proof (cases "insert_block (uf_repo s) uid None")
      case (Inl e)
      then show ?thesis using run body Returned insert_block_exc[OF Inl]
        by (auto simp: call_gateway_def)
    next
      case (Inr db)
      then show ?thesis using run body Returned by (auto simp: call_gateway_def)
    qed
  qed
qed

text \<open>The handler around the try, for a user the repository does not hold as blocked.\<close>

lemma msg_to_topic_unblocked:
  assumes "message upd = Some m" and "effective_user upd = Some usr" and "effective_chat upd = Some chat"
      and "select_block (uf_repo s) (tg_id usr) = Inr False"
  shows "msg_to_topic self ev upd s =
     (case msg_to_topic_try self ev upd (tg_id usr) chat m
             (fst (get_flag (snd (get_user_lock (cache s) (tg_id usr))) (tg_id usr) ''to_topic'' PNone))
             (s\<lparr>cache := snd (get_flag (snd (get_user_lock (cache s) (tg_id usr))) (tg_id usr) ''to_topic'' PNone)\<rparr>) of
        (Inl e, s2) \<Rightarrow>
           if e = TelegramTimedOut then
             (case call_gateway ev (ReplyText (chat_id chat) (message_id m) TimeoutNotDelivered) s2 of
                (Inl e', s3) \<Rightarrow> (Inl e', s3)
              | (Inr sent_id, s3) \<Rightarrow> (Inr (), s3))
           else (Inl e, s2)
      | (Inr u, s2) \<Rightarrow> (Inr (), s2))"
proof -
  obtain l c0 where gl: "get_user_lock (cache s) (tg_id usr) = (l, c0)"
    by (cases "get_user_lock (cache s) (tg_id usr)")
  obtain tt c1 where gf: "get_flag c0 (tg_id usr) ''to_topic'' PNone = (tt, c1)"
    by (cases "get_flag c0 (tg_id usr) ''to_topic'' PNone")
  show ?thesis using assms by (simp add: msg_to_topic_def Let_def gl gf)
qed



subsection \<open>A gateway timeout in the relay\<close>

lemma entry_queue [simp]:
  "queue_of (snd (get_flag (snd (get_user_lock c uid)) uid key d)) u = queue_of c u"
  by (simp add: queue_of_def)

lemma flood_message_queues_cong:
  assumes "user_message_time_queues c' = user_message_time_queues c"
  shows "fst (flood_message c' uid 4 now) = fst (flood_message c uid 4 now)
       \<and> user_message_time_queues (snd (flood_message c' uid 4 now))
           = user_message_time_queues (snd (flood_message c uid 4 now))"
  using assms by (simp add: flood_message_4 queue_of_def)






subsection \<open>Flood control in the private-to-group relay\<close>


lemma new_requests_append [simp]: "new_requests s (s2\<lparr>sent := sent s @ xs\<rparr>) = xs"
  by (simp add: new_requests_def)

lemma new_requests_eq: "sent s' = sent s @ xs \<Longrightarrow> new_requests s s' = xs"
  by (simp add: new_requests_def)

lemma msg_to_topic_wrap:
  assumes "message upd = Some m" and "effective_user upd = Some usr" and "effective_chat upd = Some chat"
      and "select_block (uf_repo s) (tg_id usr) = Inr False"
      and tr: "msg_to_topic_try self ev upd (tg_id usr) chat m
             (fst (get_flag (snd (get_user_lock (cache s) (tg_id usr))) (tg_id usr) ''to_topic'' PNone))
             (s\<lparr>cache := snd (get_flag (snd (get_user_lock (cache s) (tg_id usr))) (tg_id usr) ''to_topic'' PNone)\<rparr>)
           = (rt, s2)"
  shows "\<exists>tail. (tail = [] \<or> tail = [ReplyText (chat_id chat) (message_id m) TimeoutNotDelivered])
           \<and> snd (msg_to_topic self ev upd s) = s2\<lparr>sent := sent s2 @ tail\<rparr>
           \<and> (rt = Inr () \<longrightarrow> tail = [] \<and> fst (msg_to_topic self ev upd s) = Inr ())"
proof -
  let ?notice = "ReplyText (chat_id chat) (message_id m) TimeoutNotDelivered"
  note run = msg_to_topic_unblocked[OF assms(1-4), of self ev, unfolded tr]
  show ?thesis
  proof (cases rt)
    case (Inr u)
    then have "msg_to_topic self ev upd s = (Inr (), s2)" using run by simp
    then show ?thesis by (intro exI[of _ "[]"]) simp
  next
    case (Inl e)
    show ?thesis
    proof (cases "e = TelegramTimedOut")
      case False
      then have "msg_to_topic self ev upd s = (Inl e, s2)" using run Inl by simp
      then show ?thesis using Inl by (intro exI[of _ "[]"]) simp
    next
      case True
      show ?thesis
      proof (cases "gateway ev ?notice")
        case (Raised e')
        then have "msg_to_topic self ev upd s = (Inl e', s2)" using run Inl True by (simp add: call_gateway_def)
        then show ?thesis using Inl by (intro exI[of _ "[]"]) simp
      next
        case (Returned k)
        then have "msg_to_topic self ev upd s = (Inr (), s2\<lparr>sent := sent s2 @ [?notice]\<rparr>)"
          using run Inl True by (simp add: call_gateway_def)
        then show ?thesis using Inl by (intro exI[of _ "[?notice]"]) simp
      qed
    qed
  qed
qed


lemma select_block_False_iff:
  "select_block db uid = Inr False \<longleftrightarrow> filter (\<lambda>r. b_userid r = uid) (block_users db) = []"
  by (auto simp: select_block_def scalar_one_or_none_def split: list.splits)

lemma select_block_cong:
  "block_users db' = block_users db \<Longrightarrow> select_block db' uid = select_block db uid"
  by (simp add: select_block_def)

lemma insert_block_fresh:
  assumes "select_block db uid = Inr False"
  shows "insert_block db uid None =
           Inr (db\<lparr>block_users := block_users db @
                  [\<lparr>b_id = next_id (map b_id (block_users db)), b_userid = uid, pinned_msg_id = None\<rparr>]\<rparr>)"
proof -
  have e: "filter (\<lambda>r. b_userid r = uid) (block_users db) = []"
    using assms by (simp add: select_block_False_iff)
  then have "\<not> block_conflict (block_users db) \<lparr>b_id = 0, b_userid = uid, pinned_msg_id = None\<rparr>"
    by (auto simp: block_conflict_def list_ex_iff filter_empty_conv)
  then show ?thesis using e
    by (simp add: insert_block_def scalar_one_or_none_def add_and_flush_block_def)
qed

lemma select_block_after_insert:
  assumes "select_block db uid = Inr False"
  shows "select_block (db\<lparr>block_users := block_users db @
                  [\<lparr>b_id = i, b_userid = uid, pinned_msg_id = None\<rparr>]\<rparr>) uid = Inr True"
  using assms[unfolded select_block_False_iff]
  by (simp add: select_block_def scalar_one_or_none_def)

lemma run_over_10:
  assumes p: "message upd = Some m" "effective_user upd = Some usr" "effective_chat upd = Some chat"
      and ub: "select_block (uf_repo s) (tg_id usr) = Inr False"
      and cnt: "10 < fst (flood_message (cache s) (tg_id usr) 4 (monotonic ev))"
  shows "messages (uf_repo (snd (msg_to_topic self ev upd s))) = messages (uf_repo s)
       \<and> list_all (\<lambda>rq. \<not> is_relay rq) (new_requests s (snd (msg_to_topic self ev upd s)))
       \<and> (\<forall>k. gateway ev (ReplyText (chat_id chat) (message_id m) BannedForFlooding) = Returned k
            \<longrightarrow> fst (msg_to_topic self ev upd s) = Inr ()
              \<and> new_requests s (snd (msg_to_topic self ev upd s))
                   = [ReplyText (chat_id chat) (message_id m) BannedForFlooding]
              \<and> flag_of (cache (snd (msg_to_topic self ev upd s))) (tg_id usr) ''block'' = Some (PBool True)
              \<and> block_users (uf_repo (snd (msg_to_topic self ev upd s)))
                   = block_users (uf_repo s) @
                       [\<lparr>b_id = next_id (map b_id (block_users (uf_repo s))), b_userid = tg_id usr,
                         pinned_msg_id = None\<rparr>]
              \<and> select_block (uf_repo (snd (msg_to_topic self ev upd s))) (tg_id usr) = Inr True)"
proof -
  let ?uid = "tg_id usr"
  let ?c1 = "snd (get_flag (snd (get_user_lock (cache s) ?uid)) ?uid ''to_topic'' PNone)"
  let ?tt = "fst (get_flag (snd (get_user_lock (cache s) ?uid)) ?uid ''to_topic'' PNone)"
  let ?s1 = "s\<lparr>cache := ?c1\<rparr>"
  let ?nf = "ReplyText (chat_id chat) (message_id m) BannedForFlooding"
  let ?notice = "ReplyText (chat_id chat) (message_id m) TimeoutNotDelivered"
  let ?s' = "snd (msg_to_topic self ev upd s)"
  obtain rt s2 where tr: "msg_to_topic_try self ev upd ?uid chat m ?tt ?s1 = (rt, s2)"
    by (cases "msg_to_topic_try self ev upd ?uid chat m ?tt ?s1")
  have cnt1: "10 < fst (flood_message (cache ?s1) ?uid 4 (monotonic ev))"
    using cnt flood_message_queues_cong[of ?c1 "cache s" ?uid "monotonic ev"] by simp
  note sm = try_summary_over_10[OF cnt1 tr]
  obtain tail where tail: "tail = [] \<or> tail = [?notice]" "?s' = s2\<lparr>sent := sent s2 @ tail\<rparr>"
      "rt = Inr () \<longrightarrow> tail = [] \<and> fst (msg_to_topic self ev upd s) = Inr ()"
    using msg_to_topic_wrap[OF p ub tr] by blast
  have ib: "insert_block (uf_repo ?s1) ?uid None =
           Inr ((uf_repo s)\<lparr>block_users := block_users (uf_repo s) @
                  [\<lparr>b_id = next_id (map b_id (block_users (uf_repo s))), b_userid = ?uid, pinned_msg_id = None\<rparr>]\<rparr>)"
    using insert_block_fresh[OF ub] by simp
  show ?thesis
  proof (cases "gateway ev ?nf")
    case (Raised e)
    then have s2: "s2 = ?s1\<lparr>cache := snd (flood_message (cache ?s1) ?uid 4 (monotonic ev))\<rparr>"
      using sm by blast
    have "sent ?s' = sent s @ tail" "uf_repo ?s' = uf_repo s" unfolding tail(2) s2 by simp_all
    then show ?thesis using tail(1) Raised by (auto simp: new_requests_eq)
  next
    case (Returned k)
    then have s2: "rt = Inr ()"
        "s2 = ?s1\<lparr>cache := set_flag (snd (flood_message (cache ?s1) ?uid 4 (monotonic ev))) ?uid ''block'' (PBool True),
                   sent := sent ?s1 @ [?nf],
                   uf_repo := (uf_repo s)\<lparr>block_users := block_users (uf_repo s) @
                  [\<lparr>b_id = next_id (map b_id (block_users (uf_repo s))), b_userid = ?uid, pinned_msg_id = None\<rparr>]\<rparr>\<rparr>"
      using sm ib by auto
    have t: "tail = []" "fst (msg_to_topic self ev upd s) = Inr ()" using tail(3) s2(1) by simp_all
    have "sent ?s' = sent s @ [?nf]" unfolding tail(2) s2(2) t by simp
    moreover have "uf_repo ?s' = (uf_repo s)\<lparr>block_users := block_users (uf_repo s) @
                  [\<lparr>b_id = next_id (map b_id (block_users (uf_repo s))), b_userid = ?uid, pinned_msg_id = None\<rparr>]\<rparr>"
      unfolding tail(2) s2(2) by simp
    moreover have "flag_of (cache ?s') ?uid ''block'' = Some (PBool True)"
      unfolding tail(2) s2(2) by (simp add: flag_of_set_flag)
    ultimately show ?thesis using t(2) Returned select_block_after_insert[OF ub]
      by (simp add: new_requests_eq)
  qed
qed


lemma run_upto_10:
  assumes p: "message upd = Some m" "effective_user upd = Some usr" "effective_chat upd = Some chat"
      and ub: "select_block (uf_repo s) (tg_id usr) = Inr False"
      and cnt: "\<not> 10 < fst (flood_message (cache s) (tg_id usr) 4 (monotonic ev))"
  shows "block_users (uf_repo (snd (msg_to_topic self ev upd s))) = block_users (uf_repo s)
       \<and> (\<forall>u. flag_of (cache (snd (msg_to_topic self ev upd s))) u ''block'' = flag_of (cache s) u ''block'')
       \<and> user_message_time_queues (cache (snd (msg_to_topic self ev upd s)))
           = (user_message_time_queues (cache s))
               (tg_id usr \<mapsto> evict (monotonic ev) 4 (queue_of (cache s) (tg_id usr) @ [monotonic ev]))
       \<and> (7 < fst (flood_message (cache s) (tg_id usr) 4 (monotonic ev))
            \<and> (\<exists>k. gateway ev (ReplyText (chat_id chat) (message_id m) FloodWarning) = Returned k)
           \<longrightarrow> (\<exists>rest. new_requests s (snd (msg_to_topic self ev upd s))
                          = ReplyText (chat_id chat) (message_id m) FloodWarning # rest
                      \<and> list_all (\<lambda>rq. \<not> is_flood_reply rq) rest))
       \<and> (\<not> 7 < fst (flood_message (cache s) (tg_id usr) 4 (monotonic ev))
           \<longrightarrow> list_all (\<lambda>rq. \<not> is_flood_reply rq) (new_requests s (snd (msg_to_topic self ev upd s))))"
proof -
  let ?uid = "tg_id usr"
  let ?c1 = "snd (get_flag (snd (get_user_lock (cache s) ?uid)) ?uid ''to_topic'' PNone)"
  let ?tt = "fst (get_flag (snd (get_user_lock (cache s) ?uid)) ?uid ''to_topic'' PNone)"
  let ?s1 = "s\<lparr>cache := ?c1\<rparr>"
  let ?w = "ReplyText (chat_id chat) (message_id m) FloodWarning"
  let ?notice = "ReplyText (chat_id chat) (message_id m) TimeoutNotDelivered"
  let ?s' = "snd (msg_to_topic self ev upd s)"
  let ?P = "\<lambda>rq. \<not> is_flood_reply rq"
  let ?n = "fst (flood_message (cache s) ?uid 4 (monotonic ev))"
  obtain rt s2 where tr: "msg_to_topic_try self ev upd ?uid chat m ?tt ?s1 = (rt, s2)"
    by (cases "msg_to_topic_try self ev upd ?uid chat m ?tt ?s1")
  have fc: "fst (flood_message (cache ?s1) ?uid 4 (monotonic ev)) = ?n"
           "user_message_time_queues (snd (flood_message (cache ?s1) ?uid 4 (monotonic ev)))
             = user_message_time_queues (snd (flood_message (cache s) ?uid 4 (monotonic ev)))"
    using flood_message_queues_cong[of ?c1 "cache s" ?uid "monotonic ev"] by simp_all
  have fl: "\<And>u k. flag_of (snd (flood_message (cache ?s1) ?uid 4 (monotonic ev))) u k = flag_of (cache s) u k"
    by simp
  have cnt1: "\<not> 10 < fst (flood_message (cache ?s1) ?uid 4 (monotonic ev))" using cnt fc by simp
  obtain sw where sw:
    "7 < ?n \<and> (\<exists>k. gateway ev ?w = Returned k)
       \<longrightarrow> sw = ?s1\<lparr>cache := snd (flood_message (cache ?s1) ?uid 4 (monotonic ev)), sent := sent ?s1 @ [?w]\<rparr>"
    "\<not> (7 < ?n \<and> (\<exists>k. gateway ev ?w = Returned k))
       \<longrightarrow> sw = ?s1\<lparr>cache := snd (flood_message (cache ?s1) ?uid 4 (monotonic ev))\<rparr>"
    "quiet ?P sw (with_messages s2 (messages (uf_repo sw)))"
    using try_summary_upto_10[OF cnt1 tr] unfolding fc by blast
  obtain new where new: "sent s2 = sent sw @ new" "list_all ?P new"
    using sw(3) by (auto simp: quiet_def with_messages_def)
  have q2: "user_message_time_queues (cache s2) = user_message_time_queues (cache sw)"
       "block_users (uf_repo s2) = block_users (uf_repo sw)"
       "\<And>u. flag_of (cache s2) u ''block'' = flag_of (cache sw) u ''block''"
    using sw(3) by (simp_all add: quiet_def with_messages_def)
  have swc: "cache sw = snd (flood_message (cache ?s1) ?uid 4 (monotonic ev))" "uf_repo sw = uf_repo s"
    using sw(1,2) by (cases "7 < ?n \<and> (\<exists>k. gateway ev ?w = Returned k)"; simp)+
  obtain tail where tail: "tail = [] \<or> tail = [?notice]" "?s' = s2\<lparr>sent := sent s2 @ tail\<rparr>"
    using msg_to_topic_wrap[OF p ub tr] by blast
  have a: "block_users (uf_repo ?s') = block_users (uf_repo s)"
    unfolding tail(2) using q2(2) swc by simp
  have b: "\<forall>u. flag_of (cache ?s') u ''block'' = flag_of (cache s) u ''block''"
    unfolding tail(2) using q2(3) swc fl by simp
  have c: "user_message_time_queues (cache ?s')
           = (user_message_time_queues (cache s))
               (?uid \<mapsto> evict (monotonic ev) 4 (queue_of (cache s) ?uid @ [monotonic ev]))"
    unfolding tail(2) using q2(1) swc fc by (simp add: flood_message_4)
  have pt: "list_all ?P tail" using tail(1) by auto
  have d: "\<exists>rest. new_requests s ?s' = ?w # rest \<and> list_all ?P rest"
    if h: "7 < ?n \<and> (\<exists>k. gateway ev ?w = Returned k)"
  proof -
    have "sent sw = sent s @ [?w]" using sw(1) h by simp
    then have "sent ?s' = sent s @ ?w # (new @ tail)" unfolding tail(2) using new(1) by simp
    then have "new_requests s ?s' = ?w # (new @ tail)" by (rule new_requests_eq)
    then show ?thesis using new(2) pt by simp
  qed
  have e: "list_all ?P (new_requests s ?s')" if h: "\<not> 7 < ?n"
  proof -
    have "sent sw = sent s" using sw(2) h by simp
    then have "sent ?s' = sent s @ (new @ tail)" unfolding tail(2) using new(1) by simp
    then have "new_requests s ?s' = new @ tail" by (rule new_requests_eq)
    then show ?thesis using new(2) pt by simp
  qed
  show ?thesis using a b c d e by blast
qed


lemma run_warned_and_relayed:
  assumes p: "message upd = Some m" "effective_user upd = Some usr" "effective_chat upd = Some chat"
      and ub: "select_block (uf_repo s) (tg_id usr) = Inr False"
      and cnt: "7 < fst (flood_message (cache s) (tg_id usr) 4 (monotonic ev))"
               "\<not> 10 < fst (flood_message (cache s) (tg_id usr) 4 (monotonic ev))"
      and tt: "flag_of (cache s) (tg_id usr) ''to_topic'' = Some (PInt tid)" "tid \<noteq> 0"
      and v: "message_verdict self ev m = Inr (False, rs)"
      and gw: "gateway ev (ReplyText (chat_id chat) (message_id m) FloodWarning) = Returned kw"
              "gateway ev (CopyMessage (topic_chat_id self) (Some tid) (chat_id chat) (message_id m)) = Returned k"
      and im: "insert_message (uf_repo s) (tg_id usr) (message_id m) k False rs (wall_clock ev) = Inr db"
  shows "fst (msg_to_topic self ev upd s) = Inr ()
       \<and> new_requests s (snd (msg_to_topic self ev upd s))
           = [ReplyText (chat_id chat) (message_id m) FloodWarning,
              CopyMessage (topic_chat_id self) (Some tid) (chat_id chat) (message_id m)]
       \<and> uf_repo (snd (msg_to_topic self ev upd s)) = db"
proof -
  let ?uid = "tg_id usr"
  let ?c1 = "snd (get_flag (snd (get_user_lock (cache s) ?uid)) ?uid ''to_topic'' PNone)"
  let ?tt = "fst (get_flag (snd (get_user_lock (cache s) ?uid)) ?uid ''to_topic'' PNone)"
  let ?s1 = "s\<lparr>cache := ?c1\<rparr>"
  let ?w = "ReplyText (chat_id chat) (message_id m) FloodWarning"
  let ?cp = "CopyMessage (topic_chat_id self) (Some tid) (chat_id chat) (message_id m)"
  let ?cq = "snd (flood_message (cache ?s1) ?uid 4 (monotonic ev))"
  have t: "?tt = PInt tid" using tt(1) by (simp add: fst_get_flag)
  have fc: "fst (flood_message (cache ?s1) ?uid 4 (monotonic ev))
              = fst (flood_message (cache s) ?uid 4 (monotonic ev))"
    using flood_message_queues_cong[of ?c1 "cache s" ?uid "monotonic ev"] by simp
  have cnt1: "\<not> 10 < fst (flood_message (cache ?s1) ?uid 4 (monotonic ev))"
             "7 < fst (flood_message (cache ?s1) ?uid 4 (monotonic ev))"
    using cnt fc by simp_all
  have rs: "resolve_topic_id self ev upd ?uid chat m (PInt tid) sx = (Inr tid, sx)" for sx
    using tt(2) by (simp add: resolve_topic_id_def)
  have rm: "relay_message self ev ?uid chat m tid (?s1\<lparr>cache := ?cq, sent := sent s @ [?w]\<rparr>)
              = (Inr (), ?s1\<lparr>cache := ?cq, sent := sent s @ [?w, ?cp], uf_repo := db\<rparr>)"
    using v gw(2) im by (simp add: relay_message_def call_gateway_def)
  have tr: "msg_to_topic_try self ev upd ?uid chat m ?tt ?s1
              = (Inr (), ?s1\<lparr>cache := ?cq, sent := sent s @ [?w, ?cp], uf_repo := db\<rparr>)"
    unfolding try_upto_10[OF cnt1(1)] t using cnt1(2) gw(1) rs rm
    by (simp add: Let_def call_gateway_def)
  have "msg_to_topic self ev upd s = (Inr (), ?s1\<lparr>cache := ?cq, sent := sent s @ [?w, ?cp], uf_repo := db\<rparr>)"
    unfolding msg_to_topic_unblocked[OF p ub] tr by simp
  then show ?thesis by (simp add: new_requests_def)
qed


lemma evict_nothing: "\<forall>x \<in> set q. \<not> now - x > W \<Longrightarrow> evict now W q = q"
  by (cases q) simp_all

lemma relay_log_Cons:
  "relay_log self ((ev, upd) # rest) s =
     (new_requests s (snd (msg_to_topic self ev upd s)) # fst (relay_log self rest (snd (msg_to_topic self ev upd s))),
      snd (relay_log self rest (snd (msg_to_topic self ev upd s))))"
  by (simp add: Let_def split: prod.splits)

lemma relay_log_append:
  "relay_log self (xs @ ys) s =
     (fst (relay_log self xs s) @ fst (relay_log self ys (snd (relay_log self xs s))),
      snd (relay_log self ys (snd (relay_log self xs s))))"
proof (induction xs arbitrary: s)
  case Nil
  show ?case by simp
next
  case (Cons p xs)
  obtain ev upd where p: "p = (ev, upd)" by (cases p)
  show ?case unfolding p append_Cons relay_log_Cons Cons.IH by simp
qed

lemma update_of_D:
  assumes "update_of uid upd"
  obtains m usr chat where "message upd = Some m" "effective_user upd = Some usr"
    "effective_chat upd = Some chat" "tg_id usr = uid"
  using assms by (auto simp: update_of_def split: option.splits)

lemma queue_of_upd [simp]:
  "user_message_time_queues c' = (user_message_time_queues c)(uid \<mapsto> q) \<Longrightarrow> queue_of c' uid = q"
  by (simp add: queue_of_def)

lemma relay_log_within_limit:
  assumes "\<forall>p \<in> set run. update_of uid (snd p) \<and> gateway_answers (fst p)"
      and "\<forall>x \<in> set (queue_of (cache s) uid) \<union> (\<lambda>p. monotonic (fst p)) ` set run.
             \<forall>p \<in> set run. monotonic (fst p) - x \<le> 4"
      and "select_block (uf_repo s) uid = Inr False"
      and "length (queue_of (cache s) uid) + length run \<le> 10"
  shows "queue_of (cache (snd (relay_log self run s))) uid
           = queue_of (cache s) uid @ map (\<lambda>p. monotonic (fst p)) run
       \<and> block_users (uf_repo (snd (relay_log self run s))) = block_users (uf_repo s)
       \<and> length (fst (relay_log self run s)) = length run
       \<and> (\<forall>k < length run.
            (7 \<le> length (queue_of (cache s) uid) + k \<longrightarrow>
               (\<exists>c mid rest. fst (relay_log self run s) ! k = ReplyText c mid FloodWarning # rest
                   \<and> list_all (\<lambda>rq. \<not> is_flood_reply rq) rest))
          \<and> (length (queue_of (cache s) uid) + k < 7 \<longrightarrow>
               list_all (\<lambda>rq. \<not> is_flood_reply rq) (fst (relay_log self run s) ! k)))"
  using assms
proof (induction run arbitrary: s)
  case Nil
  show ?case by simp
next
  case (Cons p run)
  obtain ev upd where pe: "p = (ev, upd)" by (cases p)
  let ?Q = "queue_of (cache s) uid"
  let ?t = "monotonic ev"
  let ?s1 = "snd (msg_to_topic self ev upd s)"
  have uo: "update_of uid upd" and ga: "gateway_answers ev" using Cons.prems(1) pe by auto
  obtain m usr chat where u: "message upd = Some m" "effective_user upd = Some usr"
    "effective_chat upd = Some chat" "tg_id usr = uid"
    using uo by (rule update_of_D)
  have ub: "select_block (uf_repo s) (tg_id usr) = Inr False" using Cons.prems(3) u(4) by simp
  have within: "\<forall>x \<in> set (?Q @ [?t]). \<not> ?t - x > 4"
  proof
    fix x
    assume "x \<in> set (?Q @ [?t])"
    then have "x \<in> set ?Q \<union> (\<lambda>p. monotonic (fst p)) ` set (p # run)" using pe by auto
    moreover have "p \<in> set (p # run)" by simp
    ultimately have "monotonic (fst p) - x \<le> 4" using Cons.prems(2) by blast
    then show "\<not> ?t - x > 4" using pe by simp
  qed
  have ev: "evict ?t 4 (?Q @ [?t]) = ?Q @ [?t]" by (rule evict_nothing[OF within])
  have cnt: "fst (flood_message (cache s) (tg_id usr) 4 ?t) = length ?Q + 1"
    unfolding u(4) by (simp add: flood_message_4 ev)
  have le10: "\<not> 10 < fst (flood_message (cache s) (tg_id usr) 4 ?t)"
    using Cons.prems(4) cnt by simp
  have cnt': "fst (flood_message (cache s) uid 4 ?t) = length ?Q + 1" using cnt u(4) by simp
  note R = run_upto_10[OF u(1-3) ub le10, of self, unfolded u(4) cnt' ev]
  have q1: "queue_of (cache ?s1) uid = ?Q @ [?t]" using R by simp
  have b1: "block_users (uf_repo ?s1) = block_users (uf_repo s)" using R by simp
  have warn: "\<exists>c mid rest. new_requests s ?s1 = ReplyText c mid FloodWarning # rest
                   \<and> list_all (\<lambda>rq. \<not> is_flood_reply rq) rest" if "7 \<le> length ?Q"
  proof -
    have "7 < length ?Q + 1" using that by simp
    moreover have "\<exists>k. gateway ev (ReplyText (chat_id chat) (message_id m) FloodWarning) = Returned k"
      using ga by (simp add: gateway_answers_def)
    ultimately show ?thesis using R by blast
  qed
  have nowarn: "list_all (\<lambda>rq. \<not> is_flood_reply rq) (new_requests s ?s1)" if "length ?Q < 7"
  proof -
    have "\<not> 7 < length ?Q + 1" using that by simp
    then show ?thesis using R by blast
  qed
  have ih1: "\<forall>p \<in> set run. update_of uid (snd p) \<and> gateway_answers (fst p)"
    using Cons.prems(1) by simp
  have ih2: "\<forall>x \<in> set (queue_of (cache ?s1) uid) \<union> (\<lambda>p. monotonic (fst p)) ` set run.
             \<forall>p \<in> set run. monotonic (fst p) - x \<le> 4"
  proof (intro ballI)
    fix x q
    assume x: "x \<in> set (queue_of (cache ?s1) uid) \<union> (\<lambda>p. monotonic (fst p)) ` set run"
       and q: "q \<in> set run"
    have "x \<in> set ?Q \<union> (\<lambda>p. monotonic (fst p)) ` set (p # run)"
      using x unfolding q1 using pe by auto
    moreover have "q \<in> set (p # run)" using q by simp
    ultimately show "monotonic (fst q) - x \<le> 4" using Cons.prems(2) by blast
  qed
  have ih3: "select_block (uf_repo ?s1) uid = Inr False"
    using Cons.prems(3) select_block_cong[OF b1] by simp
  have ih4: "length (queue_of (cache ?s1) uid) + length run \<le> 10"
    unfolding q1 using Cons.prems(4) by simp
  note IH = Cons.IH[OF ih1 ih2 ih3 ih4, unfolded q1]
  have logs: "fst (relay_log self (p # run) s) = new_requests s ?s1 # fst (relay_log self run ?s1)"
    and st: "snd (relay_log self (p # run) s) = snd (relay_log self run ?s1)"
    unfolding pe relay_log_Cons by simp_all
  have A: "queue_of (cache (snd (relay_log self (p # run) s))) uid
           = ?Q @ map (\<lambda>p. monotonic (fst p)) (p # run)"
    unfolding st using IH pe by simp
  have B: "block_users (uf_repo (snd (relay_log self (p # run) s))) = block_users (uf_repo s)"
    unfolding st using IH b1 by simp
  have C: "length (fst (relay_log self (p # run) s)) = length (p # run)"
    unfolding logs using IH by simp
  have D: "(7 \<le> length ?Q + k \<longrightarrow>
               (\<exists>c mid rest. fst (relay_log self (p # run) s) ! k = ReplyText c mid FloodWarning # rest
                   \<and> list_all (\<lambda>rq. \<not> is_flood_reply rq) rest))
          \<and> (length ?Q + k < 7 \<longrightarrow>
               list_all (\<lambda>rq. \<not> is_flood_reply rq) (fst (relay_log self (p # run) s) ! k))"
    if k: "k < length (p # run)" for k
  proof (cases k)
    case 0
    then show ?thesis unfolding logs using warn nowarn by simp
  next
    case (Suc j)
    then have j: "j < length run" using k by simp
    have "(7 \<le> length (?Q @ [?t]) + j \<longrightarrow>
               (\<exists>c mid rest. fst (relay_log self run ?s1) ! j = ReplyText c mid FloodWarning # rest
                   \<and> list_all (\<lambda>rq. \<not> is_flood_reply rq) rest))
          \<and> (length (?Q @ [?t]) + j < 7 \<longrightarrow>
               list_all (\<lambda>rq. \<not> is_flood_reply rq) (fst (relay_log self run ?s1) ! j))"
      using IH j by blast
    then show ?thesis unfolding logs Suc by simp
  qed
  show ?case using A B C D by blast
qed


lemma eleven_messages:
  assumes len: "length run = 11"
      and upd: "\<forall>p \<in> set run. update_of uid (snd p) \<and> gateway_answers (fst p)"
      and win: "\<forall>p \<in> set run. \<forall>q \<in> set run. monotonic (fst q) - monotonic (fst p) \<le> 4"
      and ub: "select_block (uf_repo s) uid = Inr False"
      and q0: "queue_of (cache s) uid = []"
  shows "length (fst (relay_log self run s)) = 11
       \<and> (\<forall>k. k < 7 \<longrightarrow> list_all (\<lambda>rq. \<not> is_flood_reply rq) (fst (relay_log self run s) ! k))
       \<and> (\<forall>k. 7 \<le> k \<and> k < 10 \<longrightarrow>
             (\<exists>c mid rest. fst (relay_log self run s) ! k = ReplyText c mid FloodWarning # rest
                 \<and> list_all (\<lambda>rq. \<not> is_flood_reply rq) rest))
       \<and> (\<exists>c mid. fst (relay_log self run s) ! 10 = [ReplyText c mid BannedForFlooding])
       \<and> select_block (uf_repo (snd (relay_log self run s))) uid = Inr True
       \<and> flag_of (cache (snd (relay_log self run s))) uid ''block'' = Some (PBool True)"
proof -
  let ?front = "take 10 run"
  obtain ev u where lastp: "run ! 10 = (ev, u)" by (cases "run ! 10")
  have split: "run = ?front @ [(ev, u)]"
  proof -
    have "run = take 10 run @ drop 10 run" by simp
    moreover have "drop 10 run = [run ! 10]"
      using Cons_nth_drop_Suc[of 10 run] len by simp
    ultimately show ?thesis using lastp by simp
  qed
  have fl: "length ?front = 10" using len by simp
  have in_run: "(ev, u) \<in> set run" using len lastp nth_mem[of 10 run] by simp
  have sub: "set ?front \<subseteq> set run" by (rule set_take_subset)
  let ?s10 = "snd (relay_log self ?front s)"
  have h1: "\<forall>p \<in> set ?front. update_of uid (snd p) \<and> gateway_answers (fst p)"
    using upd sub by blast
  have h2: "\<forall>x \<in> set (queue_of (cache s) uid) \<union> (\<lambda>p. monotonic (fst p)) ` set ?front.
             \<forall>p \<in> set ?front. monotonic (fst p) - x \<le> 4"
    unfolding q0 using win sub by auto
  have h4: "length (queue_of (cache s) uid) + length ?front \<le> 10" unfolding q0 fl by simp
  note F = relay_log_within_limit[OF h1 h2 ub h4, of self, unfolded q0 fl, simplified]
  have q10: "queue_of (cache ?s10) uid = map (\<lambda>p. monotonic (fst p)) ?front" using F by simp
  have ub10: "select_block (uf_repo ?s10) uid = Inr False"
    using F ub select_block_cong[of "uf_repo ?s10" "uf_repo s" uid] by simp
  have lf: "length (fst (relay_log self ?front s)) = 10" using F by simp
  have uo: "update_of uid u" using upd in_run by auto
  obtain m usr chat where uu: "message u = Some m" "effective_user u = Some usr"
    "effective_chat u = Some chat" "tg_id usr = uid"
    using uo by (rule update_of_D)
  have ga: "gateway_answers ev" using upd in_run by auto
  let ?t = "monotonic ev"
  let ?Q = "queue_of (cache ?s10) uid"
  have within: "\<forall>x \<in> set (?Q @ [?t]). \<not> ?t - x > 4"
  proof
    fix x
    assume "x \<in> set (?Q @ [?t])"
    then have "x \<in> (\<lambda>p. monotonic (fst p)) ` set run" unfolding q10 using sub in_run by force
    then obtain p where "p \<in> set run" "x = monotonic (fst p)" by blast
    then have "monotonic (fst (ev, u)) - x \<le> 4" using win in_run by blast
    then show "\<not> ?t - x > 4" by simp
  qed
  have ev: "evict ?t 4 (?Q @ [?t]) = ?Q @ [?t]" by (rule evict_nothing[OF within])
  have "fst (flood_message (cache ?s10) uid 4 ?t) = length (?Q @ [?t])"
    unfolding flood_message_4 ev by simp
  also have "\<dots> = 11" unfolding q10 using len by simp
  finally have cnt: "fst (flood_message (cache ?s10) (tg_id usr) 4 ?t) = 11"
    unfolding uu(4) .
  have over: "10 < fst (flood_message (cache ?s10) (tg_id usr) 4 ?t)" using cnt by simp
  have ub10': "select_block (uf_repo ?s10) (tg_id usr) = Inr False" using ub10 uu(4) by simp
  obtain k where k: "gateway ev (ReplyText (chat_id chat) (message_id m) BannedForFlooding) = Returned k"
    using ga unfolding gateway_answers_def by blast
  let ?s11 = "snd (msg_to_topic self ev u ?s10)"
  note O = run_over_10[OF uu(1-3) ub10' over, of self, THEN conjunct2, THEN conjunct2, rule_format, OF k]
  have logs: "fst (relay_log self run s) = fst (relay_log self ?front s) @ [new_requests ?s10 ?s11]"
   and st: "snd (relay_log self run s) = ?s11"
    by (subst split, simp add: relay_log_append Let_def)+
  have A: "length (fst (relay_log self run s)) = 11" unfolding logs using lf by simp
  have B: "list_all (\<lambda>rq. \<not> is_flood_reply rq) (fst (relay_log self run s) ! j)" if "j < 7" for j
  proof -
    have "j < 10" using that by simp
    then have "fst (relay_log self run s) ! j = fst (relay_log self ?front s) ! j"
      unfolding logs using lf by (simp add: nth_append)
    then show ?thesis using F that \<open>j < 10\<close> by simp
  qed
  have C: "\<exists>c mid rest. fst (relay_log self run s) ! j = ReplyText c mid FloodWarning # rest
                 \<and> list_all (\<lambda>rq. \<not> is_flood_reply rq) rest" if "7 \<le> j \<and> j < 10" for j
  proof -
    have "fst (relay_log self run s) ! j = fst (relay_log self ?front s) ! j"
      unfolding logs using lf that by (simp add: nth_append)
    then show ?thesis using F that by simp
  qed
  have D: "\<exists>c mid. fst (relay_log self run s) ! 10 = [ReplyText c mid BannedForFlooding]"
  proof -
    have "fst (relay_log self run s) ! 10 = new_requests ?s10 ?s11"
      unfolding logs using lf by (simp add: nth_append)
    then show ?thesis using O by simp
  qed
  have E: "select_block (uf_repo (snd (relay_log self run s))) uid = Inr True"
    unfolding st using O uu(4) by simp
  have G: "flag_of (cache (snd (relay_log self run s))) uid ''block'' = Some (PBool True)"
    unfolding st using O uu(4) by simp
  show ?thesis using A B C D E G by blast
qed

text \<open>
  Claim C5.  In \<open>msg_to_topic\<close>, for an unblocked private message of a user, let \<open>n\<close> be the
  count that \<open>flood_message\<close> returns for the 4 second window.  If \<open>n\<close> exceeds 10, the messages
  table is unchanged and no forward, copy or topic request reaches the gateway; when the gateway
  answers the ban notice, that notice is the only request, a block row for the user is appended,
  the cached block flag is set and \<open>select_block\<close> finds the user blocked.  If \<open>n\<close> exceeds 7 but
  not 10, no block row is written, and when the gateway answers the warning, the warning is the
  first request and processing goes on: with a cached topic, a non-spam verdict and an answered copy
  the requests are the warning followed by the copy, and the mapping is stored.  If \<open>n\<close> is at most
  7, no flood reply is sent.  For 11 updates of one unblocked user with an empty queue, whose
  clock readings all lie within 4 seconds and whose gateway answers every request, messages 1 to
  7 get no flood reply, messages 8 to 10 get the warning first, and message 11 gets only the ban
  notice, after which the user is blocked.
\<close>


theorem msg_to_topic_flood_control:
  "(message upd = Some m \<and> effective_user upd = Some usr \<and> effective_chat upd = Some chat
     \<and> select_block (uf_repo s) (tg_id usr) = Inr False
    \<longrightarrow>
      (10 < fst (flood_message (cache s) (tg_id usr) 4 (monotonic ev)) \<longrightarrow>
         messages (uf_repo (snd (msg_to_topic self ev upd s))) = messages (uf_repo s)
       \<and> list_all (\<lambda>rq. \<not> is_relay rq) (new_requests s (snd (msg_to_topic self ev upd s)))
       \<and> (\<forall>k. gateway ev (ReplyText (chat_id chat) (message_id m) BannedForFlooding) = Returned k
            \<longrightarrow> fst (msg_to_topic self ev upd s) = Inr ()
              \<and> new_requests s (snd (msg_to_topic self ev upd s))
                   = [ReplyText (chat_id chat) (message_id m) BannedForFlooding]
              \<and> flag_of (cache (snd (msg_to_topic self ev upd s))) (tg_id usr) ''block'' = Some (PBool True)
              \<and> block_users (uf_repo (snd (msg_to_topic self ev upd s)))
                   = block_users (uf_repo s) @
                       [\<lparr>b_id = next_id (map b_id (block_users (uf_repo s))), b_userid = tg_id usr,
                         pinned_msg_id = None\<rparr>]
              \<and> select_block (uf_repo (snd (msg_to_topic self ev upd s))) (tg_id usr) = Inr True))
    \<and> (7 < fst (flood_message (cache s) (tg_id usr) 4 (monotonic ev))
        \<and> \<not> 10 < fst (flood_message (cache s) (tg_id usr) 4 (monotonic ev)) \<longrightarrow>
         block_users (uf_repo (snd (msg_to_topic self ev upd s))) = block_users (uf_repo s)
       \<and> flag_of (cache (snd (msg_to_topic self ev upd s))) (tg_id usr) ''block''
           = flag_of (cache s) (tg_id usr) ''block''
       \<and> (\<forall>kw. gateway ev (ReplyText (chat_id chat) (message_id m) FloodWarning) = Returned kw
            \<longrightarrow> (\<exists>rest. new_requests s (snd (msg_to_topic self ev upd s))
                            = ReplyText (chat_id chat) (message_id m) FloodWarning # rest
                        \<and> list_all (\<lambda>rq. \<not> is_flood_reply rq) rest)
              \<and> (\<forall>tid rs k db.
                    flag_of (cache s) (tg_id usr) ''to_topic'' = Some (PInt tid) \<and> tid \<noteq> 0
                    \<and> message_verdict self ev m = Inr (False, rs)
                    \<and> gateway ev (CopyMessage (topic_chat_id self) (Some tid) (chat_id chat) (message_id m))
                        = Returned k
                    \<and> insert_message (uf_repo s) (tg_id usr) (message_id m) k False rs (wall_clock ev) = Inr db
                    \<longrightarrow> fst (msg_to_topic self ev upd s) = Inr ()
                      \<and> new_requests s (snd (msg_to_topic self ev upd s))
                          = [ReplyText (chat_id chat) (message_id m) FloodWarning,
                             CopyMessage (topic_chat_id self) (Some tid) (chat_id chat) (message_id m)]
                      \<and> uf_repo (snd (msg_to_topic self ev upd s)) = db)))
    \<and> (\<not> 7 < fst (flood_message (cache s) (tg_id usr) 4 (monotonic ev)) \<longrightarrow>
         list_all (\<lambda>rq. \<not> is_flood_reply rq) (new_requests s (snd (msg_to_topic self ev upd s)))))
   \<and> (length run = 11
       \<and> (\<forall>p \<in> set run. update_of uid (snd p) \<and> gateway_answers (fst p))
       \<and> (\<forall>p \<in> set run. \<forall>q \<in> set run. monotonic (fst q) - monotonic (fst p) \<le> 4)
       \<and> select_block (uf_repo s0) uid = Inr False
       \<and> queue_of (cache s0) uid = []
      \<longrightarrow>
         length (fst (relay_log self run s0)) = 11
       \<and> (\<forall>k. k < 7 \<longrightarrow> list_all (\<lambda>rq. \<not> is_flood_reply rq) (fst (relay_log self run s0) ! k))
       \<and> (\<forall>k. 7 \<le> k \<and> k < 10 \<longrightarrow>
             (\<exists>c mid rest. fst (relay_log self run s0) ! k = ReplyText c mid FloodWarning # rest
                 \<and> list_all (\<lambda>rq. \<not> is_flood_reply rq) rest))
       \<and> (\<exists>c mid. fst (relay_log self run s0) ! 10 = [ReplyText c mid BannedForFlooding])
       \<and> select_block (uf_repo (snd (relay_log self run s0))) uid = Inr True
       \<and> flag_of (cache (snd (relay_log self run s0))) uid ''block'' = Some (PBool True))"
proof (intro conjI impI)
  assume h: "message upd = Some m \<and> effective_user upd = Some usr \<and> effective_chat upd = Some chat
     \<and> select_block (uf_repo s) (tg_id usr) = Inr False"
  then have p: "message upd = Some m" "effective_user upd = Some usr" "effective_chat upd = Some chat"
    and ub: "select_block (uf_repo s) (tg_id usr) = Inr False" by simp_all
  {
    assume c: "10 < fst (flood_message (cache s) (tg_id usr) 4 (monotonic ev))"
    note O = run_over_10[OF p ub c, of self]
    show "messages (uf_repo (snd (msg_to_topic self ev upd s))) = messages (uf_repo s)"
      using O by (rule conjunct1)
    show "list_all (\<lambda>rq. \<not> is_relay rq) (new_requests s (snd (msg_to_topic self ev upd s)))"
      using O by simp
    show "\<forall>k. gateway ev (ReplyText (chat_id chat) (message_id m) BannedForFlooding) = Returned k
            \<longrightarrow> fst (msg_to_topic self ev upd s) = Inr ()
              \<and> new_requests s (snd (msg_to_topic self ev upd s))
                   = [ReplyText (chat_id chat) (message_id m) BannedForFlooding]
              \<and> flag_of (cache (snd (msg_to_topic self ev upd s))) (tg_id usr) ''block'' = Some (PBool True)
              \<and> block_users (uf_repo (snd (msg_to_topic self ev upd s)))
                   = block_users (uf_repo s) @
                       [\<lparr>b_id = next_id (map b_id (block_users (uf_repo s))), b_userid = tg_id usr,
                         pinned_msg_id = None\<rparr>]
              \<and> select_block (uf_repo (snd (msg_to_topic self ev upd s))) (tg_id usr) = Inr True"
      using O by (rule conjunct2[THEN conjunct2])
  }
  {
    assume c: "7 < fst (flood_message (cache s) (tg_id usr) 4 (monotonic ev))
        \<and> \<not> 10 < fst (flood_message (cache s) (tg_id usr) 4 (monotonic ev))"
    then have c7: "7 < fst (flood_message (cache s) (tg_id usr) 4 (monotonic ev))"
      and c10: "\<not> 10 < fst (flood_message (cache s) (tg_id usr) 4 (monotonic ev))" by simp_all
    note U = run_upto_10[OF p ub c10, of self]
    show "block_users (uf_repo (snd (msg_to_topic self ev upd s))) = block_users (uf_repo s)"
      using U by (rule conjunct1)
    show "flag_of (cache (snd (msg_to_topic self ev upd s))) (tg_id usr) ''block''
           = flag_of (cache s) (tg_id usr) ''block''"
      using U by simp
    show "\<forall>kw. gateway ev (ReplyText (chat_id chat) (message_id m) FloodWarning) = Returned kw
            \<longrightarrow> (\<exists>rest. new_requests s (snd (msg_to_topic self ev upd s))
                            = ReplyText (chat_id chat) (message_id m) FloodWarning # rest
                        \<and> list_all (\<lambda>rq. \<not> is_flood_reply rq) rest)
              \<and> (\<forall>tid rs k db.
                    flag_of (cache s) (tg_id usr) ''to_topic'' = Some (PInt tid) \<and> tid \<noteq> 0
                    \<and> message_verdict self ev m = Inr (False, rs)
                    \<and> gateway ev (CopyMessage (topic_chat_id self) (Some tid) (chat_id chat) (message_id m))
                        = Returned k
                    \<and> insert_message (uf_repo s) (tg_id usr) (message_id m) k False rs (wall_clock ev) = Inr db
                    \<longrightarrow> fst (msg_to_topic self ev upd s) = Inr ()
                      \<and> new_requests s (snd (msg_to_topic self ev upd s))
                          = [ReplyText (chat_id chat) (message_id m) FloodWarning,
                             CopyMessage (topic_chat_id self) (Some tid) (chat_id chat) (message_id m)]
                      \<and> uf_repo (snd (msg_to_topic self ev upd s)) = db)"
    proof (intro allI impI conjI)
      fix kw
      assume g: "gateway ev (ReplyText (chat_id chat) (message_id m) FloodWarning) = Returned kw"
      show "\<exists>rest. new_requests s (snd (msg_to_topic self ev upd s))
                            = ReplyText (chat_id chat) (message_id m) FloodWarning # rest
                        \<and> list_all (\<lambda>rq. \<not> is_flood_reply rq) rest"
        using U c7 g by blast
      fix tid rs k db
      assume a: "flag_of (cache s) (tg_id usr) ''to_topic'' = Some (PInt tid) \<and> tid \<noteq> 0
                    \<and> message_verdict self ev m = Inr (False, rs)
                    \<and> gateway ev (CopyMessage (topic_chat_id self) (Some tid) (chat_id chat) (message_id m))
                        = Returned k
                    \<and> insert_message (uf_repo s) (tg_id usr) (message_id m) k False rs (wall_clock ev) = Inr db"
      note W = run_warned_and_relayed[OF p ub c7 c10 a[THEN conjunct1] a[THEN conjunct2, THEN conjunct1]
          a[THEN conjunct2, THEN conjunct2, THEN conjunct1] g
          a[THEN conjunct2, THEN conjunct2, THEN conjunct2, THEN conjunct1]
          a[THEN conjunct2, THEN conjunct2, THEN conjunct2, THEN conjunct2]]
      show "fst (msg_to_topic self ev upd s) = Inr ()" using W by (rule conjunct1)
      show "new_requests s (snd (msg_to_topic self ev upd s))
                          = [ReplyText (chat_id chat) (message_id m) FloodWarning,
                             CopyMessage (topic_chat_id self) (Some tid) (chat_id chat) (message_id m)]"
        using W by (rule conjunct2[THEN conjunct1])
      show "uf_repo (snd (msg_to_topic self ev upd s)) = db" using W by (rule conjunct2[THEN conjunct2])
    qed
  }
  {
    assume c: "\<not> 7 < fst (flood_message (cache s) (tg_id usr) 4 (monotonic ev))"
    then have c10: "\<not> 10 < fst (flood_message (cache s) (tg_id usr) 4 (monotonic ev))" by simp
    show "list_all (\<lambda>rq. \<not> is_flood_reply rq) (new_requests s (snd (msg_to_topic self ev upd s)))"
      using run_upto_10[OF p ub c10, of self] c by blast
  }
next
  assume h: "length run = 11
       \<and> (\<forall>p \<in> set run. update_of uid (snd p) \<and> gateway_answers (fst p))
       \<and> (\<forall>p \<in> set run. \<forall>q \<in> set run. monotonic (fst q) - monotonic (fst p) \<le> 4)
       \<and> select_block (uf_repo s0) uid = Inr False
       \<and> queue_of (cache s0) uid = []"
  note E = eleven_messages[OF h[THEN conjunct1] h[THEN conjunct2, THEN conjunct1]
      h[THEN conjunct2, THEN conjunct2, THEN conjunct1]
      h[THEN conjunct2, THEN conjunct2, THEN conjunct2, THEN conjunct1]
      h[THEN conjunct2, THEN conjunct2, THEN conjunct2, THEN conjunct2], of self]
  show "length (fst (relay_log self run s0)) = 11" using E by (rule conjunct1)
  show "\<forall>k. k < 7 \<longrightarrow> list_all (\<lambda>rq. \<not> is_flood_reply rq) (fst (relay_log self run s0) ! k)"
    using E by (rule conjunct2[THEN conjunct1])
  show "\<forall>k. 7 \<le> k \<and> k < 10 \<longrightarrow>
             (\<exists>c mid rest. fst (relay_log self run s0) ! k = ReplyText c mid FloodWarning # rest
                 \<and> list_all (\<lambda>rq. \<not> is_flood_reply rq) rest)"
    using E by (rule conjunct2[THEN conjunct2, THEN conjunct1])
  show "\<exists>c mid. fst (relay_log self run s0) ! 10 = [ReplyText c mid BannedForFlooding]"
    using E by (rule conjunct2[THEN conjunct2, THEN conjunct2, THEN conjunct1])
  show "select_block (uf_repo (snd (relay_log self run s0))) uid = Inr True"
    using E by (rule conjunct2[THEN conjunct2, THEN conjunct2, THEN conjunct2, THEN conjunct1])
  show "flag_of (cache (snd (relay_log self run s0))) uid ''block'' = Some (PBool True)"
    using E by (rule conjunct2[THEN conjunct2, THEN conjunct2, THEN conjunct2, THEN conjunct2])
qed


theorem msg_to_topic_flood_control_witness:
  "message (example_update 50 None None)
     = Some \<lparr>message_id = 50, msg_text = None, message_thread_id = None, reply_to_message = None\<rparr>
   \<and> effective_user (example_update 50 None None) = Some example_user
   \<and> effective_chat (example_update 50 None None) = Some example_chat
   \<and> select_block (uf_repo example_state_flooded) (tg_id example_user) = Inr False
   \<and> 10 < fst (flood_message (cache example_state_flooded) (tg_id example_user) 4
                 (monotonic (example_env gateway_ok 2)))
   \<and> gateway (example_env gateway_ok 2) (ReplyText (chat_id example_chat) 50 BannedForFlooding) = Returned 1
   \<and> new_requests example_state_flooded
        (snd (msg_to_topic example_bot (example_env gateway_ok 2) (example_update 50 None None)
                example_state_flooded))
       = [ReplyText (chat_id example_chat) 50 BannedForFlooding]
   \<and> select_block (uf_repo (snd (msg_to_topic example_bot (example_env gateway_ok 2)
                                    (example_update 50 None None) example_state_flooded)))
        (tg_id example_user) = Inr True
   \<and> length (replicate 11 (example_env gateway_ok 0, example_update 50 None None)) = 11
   \<and> select_block (uf_repo example_state) 7 = Inr False
   \<and> queue_of (cache example_state) 7 = []
   \<and> (\<exists>c mid. fst (relay_log example_bot (replicate 11 (example_env gateway_ok 0, example_update 50 None None))
                       example_state) ! 10 = [ReplyText c mid BannedForFlooding])
   \<and> select_block (uf_repo (snd (relay_log example_bot
                                    (replicate 11 (example_env gateway_ok 0, example_update 50 None None))
                                    example_state))) 7 = Inr True"
proof -
  let ?m = "\<lparr>message_id = 50, msg_text = None, message_thread_id = None, reply_to_message = None\<rparr>"
  let ?upd = "example_update 50 None None"
  let ?ev = "example_env gateway_ok 2"
  let ?run = "replicate 11 (example_env gateway_ok 0, ?upd)"
  have h1: "message ?upd = Some ?m" by (simp add: example_update_def)
  have h2: "effective_user ?upd = Some example_user" by (simp add: example_update_def)
  have h3: "effective_chat ?upd = Some example_chat" by (simp add: example_update_def)
  have h4: "select_block (uf_repo example_state_flooded) (tg_id example_user) = Inr False"
    by (simp add: example_state_flooded_def example_state_def empty_repo_def select_block_def
        scalar_one_or_none_def)
  have q: "queue_of (cache example_state_flooded) (tg_id example_user) = replicate 10 1"
    by (simp add: example_state_flooded_def example_user_def queue_of_def)
  have ev: "evict 2 4 (replicate 10 1 @ [2]) = replicate 10 1 @ [2]"
    by (rule evict_nothing) simp
  have h5: "10 < fst (flood_message (cache example_state_flooded) (tg_id example_user) 4 (monotonic ?ev))"
    by (simp add: flood_message_4 q example_env_def ev)
  have h6: "gateway ?ev (ReplyText (chat_id example_chat) (message_id ?m) BannedForFlooding) = Returned 1"
    by (simp add: example_env_def gateway_ok_def)
  have s1: "length ?run = 11" by simp
  have s2: "\<forall>p \<in> set ?run. update_of 7 (snd p) \<and> gateway_answers (fst p)"
    by (simp add: update_of_def example_update_def example_user_def gateway_answers_def
        example_env_def gateway_ok_def)
  have s3: "\<forall>p \<in> set ?run. \<forall>q \<in> set ?run. monotonic (fst q) - monotonic (fst p) \<le> 4"
    by (simp add: example_env_def)
  have s4: "select_block (uf_repo example_state) 7 = Inr False"
    by (simp add: example_state_def empty_repo_def select_block_def scalar_one_or_none_def)
  have s5: "queue_of (cache example_state) 7 = []"
    by (simp add: example_state_def queue_of_def new_cache_def set_flag_def get_user_data_dict_def)
  note T = msg_to_topic_flood_control
    [where upd = ?upd and m = ?m and usr = example_user and chat = example_chat
       and s = example_state_flooded and ev = ?ev and self = example_bot
       and run = ?run and uid = 7 and ?s0.0 = example_state]
  have single: "\<forall>k. gateway ?ev (ReplyText (chat_id example_chat) (message_id ?m) BannedForFlooding) = Returned k
            \<longrightarrow> fst (msg_to_topic example_bot ?ev ?upd example_state_flooded) = Inr ()
              \<and> new_requests example_state_flooded (snd (msg_to_topic example_bot ?ev ?upd example_state_flooded))
                   = [ReplyText (chat_id example_chat) (message_id ?m) BannedForFlooding]
              \<and> flag_of (cache (snd (msg_to_topic example_bot ?ev ?upd example_state_flooded)))
                   (tg_id example_user) ''block'' = Some (PBool True)
              \<and> block_users (uf_repo (snd (msg_to_topic example_bot ?ev ?upd example_state_flooded)))
                   = block_users (uf_repo example_state_flooded) @
                       [\<lparr>b_id = next_id (map b_id (block_users (uf_repo example_state_flooded))),
                         b_userid = tg_id example_user, pinned_msg_id = None\<rparr>]
              \<and> select_block (uf_repo (snd (msg_to_topic example_bot ?ev ?upd example_state_flooded)))
                   (tg_id example_user) = Inr True"
    using T[THEN conjunct1, rule_format, OF conjI[OF h1 conjI[OF h2 conjI[OF h3 h4]]],
            THEN conjunct1, rule_format, OF h5]
    by (rule conjunct2[THEN conjunct2])
  note S = single[rule_format, OF h6]
  note E = T[THEN conjunct2, rule_format, OF conjI[OF s1 conjI[OF s2 conjI[OF s3 conjI[OF s4 s5]]]]]
  have c7: "new_requests example_state_flooded
        (snd (msg_to_topic example_bot ?ev ?upd example_state_flooded))
       = [ReplyText (chat_id example_chat) 50 BannedForFlooding]"
    using S by simp
  have c8: "select_block (uf_repo (snd (msg_to_topic example_bot ?ev ?upd example_state_flooded)))
        (tg_id example_user) = Inr True"
    using S by simp
  have c6: "gateway ?ev (ReplyText (chat_id example_chat) 50 BannedForFlooding) = Returned 1"
    using h6 by simp
  have e1: "\<exists>c mid. fst (relay_log example_bot ?run example_state) ! 10 = [ReplyText c mid BannedForFlooding]"
    using E by (rule conjunct2[THEN conjunct2, THEN conjunct2, THEN conjunct1])
  have e2: "select_block (uf_repo (snd (relay_log example_bot ?run example_state))) 7 = Inr True"
    using E by (rule conjunct2[THEN conjunct2, THEN conjunct2, THEN conjunct2, THEN conjunct1])
  show ?thesis by (intro conjI) (rule h1 h2 h3 h4 h5 c6 c7 c8 s1 s4 s5 e1 e2)+
qed


subsection \<open>Verification attempts\<close>























lemma new_requests_cache [simp]: "new_requests (s\<lparr>cache := c\<rparr>) s' = new_requests s s'"
  by (simp add: new_requests_def)






lemma select_valid_verify_cong:
  "verify_users db' = verify_users db \<Longrightarrow> select_valid_verify db' uid = select_valid_verify db uid"
  by (simp add: select_valid_verify_def)






end
